theory Spec2Isabelle
  imports Complex_Main
begin

section \<open>Data model\<close>

text \<open>
  The two handlers under study are \<open>POST\<close> of \<open>app/api/evaluate-alert/route.js\<close> (the
  evaluation engine) and \<open>POST\<close> of the sensor ingest route (\<open>app/api/flood/route.js\<close>,
  second module). Both talk to two MySQL tables, \<open>sensor_readings\<close> and \<open>flood_alerts\<close>;
  the engine keeps one module-level variable, \<open>firstSafeDetectedAt\<close>.

  Timestamps are integers (milliseconds since the epoch, what a JavaScript \<open>Date\<close> holds).
  A number of the program is a double; the model carries its exact value, a real. Strings
  are byte strings, the UTF-8 form of the program's.
\<close>

record reading =
  reading_id :: nat
  distance :: real
  flood_level :: real
  status_tag :: string
  reading_time :: int

datatype alert_status = Active | Past

record alert =
  alert_id :: nat
  alert_level :: string
  message :: string
  status :: alert_status
  source_distance :: "real option"
  source_flood_level :: "real option"
  alert_reading_time :: "int option"
  created_at :: int
  updated_at :: "int option"

record system =
  sensor_readings :: "reading list"
  flood_alerts :: "alert list"
  firstSafeDetectedAt :: "int option"

text \<open>
  Every statement sent to the database may throw. Which ones do is an input of the model:
  a predicate on the statements of the two handlers, in the order they appear there.
\<close>

datatype query =
    SelectLatestReading
  | UpdateAllActiveToPast
  | SelectDuplicate
  | InsertAlert
  | SelectActive
  | UpdateDemote
  | GetConnection
  | InsertReading
  | InsertIngestAlert

text \<open>
  Modelled from the spec: the table definitions are not part of the sources. Row ids are
  taken to be auto-increment keys (the handlers read \<open>result.insertId\<close> and \<open>alert.id\<close>):
  a new row gets one more than the largest id in the table.
\<close>

definition next_id :: "nat list \<Rightarrow> nat" where
  "next_id ids = Suc (foldr max ids 0)"

section \<open>JavaScript numbers\<close>

text \<open>
  A decimal literal of the source, and a decimal string read by \<open>parseFloat\<close>, stand for
  the double nearest to the decimal: 53 significant bits, a tie going to the even
  significand. \<open>binade_pow x\<close> is the power of two \<open>p\<close> with \<open>p \<le> x < 2 * p\<close>, so
  \<open>p / 2 ^ 52\<close> is the spacing of the doubles around \<open>x\<close>. The exponent is not bounded:
  no number met here is near the largest or the smallest double.
\<close>

function binade_pow :: "real \<Rightarrow> real" where
  "binade_pow x =
     (if x \<le> 0 then 1
      else if 2 \<le> x then 2 * binade_pow (x / 2)
      else if x < 1 then binade_pow (2 * x) / 2
      else 1)"
  by pat_completeness auto

termination
proof (relation "measure (\<lambda>x. if 1 \<le> x then nat \<lfloor>x\<rfloor> else 1 + nat \<lfloor>1 / x\<rfloor>)")
  show "wf (measure (\<lambda>x::real. if 1 \<le> x then nat \<lfloor>x\<rfloor> else 1 + nat \<lfloor>1 / x\<rfloor>))"
    by simp
next
  fix x :: real
  assume x: "\<not> x \<le> 0" "2 \<le> x"
  have "x / 2 \<le> x - 1" using x by simp
  then have "\<lfloor>x / 2\<rfloor> \<le> \<lfloor>x - 1\<rfloor>" by (rule floor_mono)
  then have "\<lfloor>x / 2\<rfloor> < \<lfloor>x\<rfloor>" by simp
  moreover have "0 \<le> \<lfloor>x / 2\<rfloor>" using x by simp
  ultimately show "(x / 2, x) \<in> measure (\<lambda>x. if 1 \<le> x then nat \<lfloor>x\<rfloor> else 1 + nat \<lfloor>1 / x\<rfloor>)"
    using x by simp
next
  fix x :: real
  assume x: "\<not> x \<le> 0" "\<not> 2 \<le> x" "x < 1"
  show "(2 * x, x) \<in> measure (\<lambda>x. if 1 \<le> x then nat \<lfloor>x\<rfloor> else 1 + nat \<lfloor>1 / x\<rfloor>)"
  proof (cases "1 \<le> 2 * x")
    case True
    have "\<lfloor>2 * x\<rfloor> = 1" using True x by (simp add: floor_eq_iff)
    moreover have "1 \<le> 1 / x" using x by simp
    then have "1 \<le> \<lfloor>1 / x\<rfloor>" by (simp add: le_floor_iff)
    ultimately show ?thesis using True x by simp
  next
    case False
    then have "2 \<le> 1 / x" using x by (simp add: field_simps)
    then have "(1 / x) / 2 \<le> 1 / x - 1" by simp
    then have "\<lfloor>(1 / x) / 2\<rfloor> \<le> \<lfloor>1 / x - 1\<rfloor>" by (rule floor_mono)
    then have "\<lfloor>(1 / x) / 2\<rfloor> < \<lfloor>1 / x\<rfloor>" by simp
    moreover have "(1 / x) / 2 = 1 / (2 * x)" by simp
    ultimately have "\<lfloor>1 / (2 * x)\<rfloor> < \<lfloor>1 / x\<rfloor>" by (simp only:)
    moreover have "0 \<le> \<lfloor>1 / (2 * x)\<rfloor>" using x by simp
    ultimately have "nat \<lfloor>1 / (2 * x)\<rfloor> < nat \<lfloor>1 / x\<rfloor>" by linarith
    then show ?thesis using False x by (simp del: floor_divide_eq_div_numeral)
  qed
qed

declare binade_pow.simps [simp del]

definition round_half_even :: "real \<Rightarrow> int" where
  "round_half_even z =
     (let f = \<lfloor>z\<rfloor>; d = z - of_int f in
      if d < 1 / 2 then f else if 1 / 2 < d then f + 1 else if even f then f else f + 1)"

definition to_double :: "real \<Rightarrow> real" where
  "to_double x =
     (if x = 0 then 0
      else let ulp = binade_pow \<bar>x\<bar> / 2 ^ 52 in
        sgn x * (of_int (round_half_even (\<bar>x\<bar> / ulp)) * ulp))"

section \<open>The evaluation engine\<close>

text \<open>
  \<open>parseFloat(x.toFixed(2))\<close>. \<open>toFixed(2)\<close> writes the multiple of \<open>1/100\<close> nearest to the
  exact value of \<open>x\<close>, the larger magnitude on a tie, the sign handled apart; \<open>parseFloat\<close>
  reads the decimal back as a double. (From \<open>10 ^ 21\<close> on \<open>toFixed\<close> writes the number
  itself; such an \<open>x\<close> is a whole number and the formula gives \<open>x\<close> there too.)
\<close>

definition toFixed2 :: "real \<Rightarrow> real" where
  "toFixed2 x =
     to_double (if x < 0 then - (of_int \<lfloor>- x * 100 + 1 / 2\<rfloor> / 100)
                else of_int \<lfloor>x * 100 + 1 / 2\<rfloor> / 100)"

text \<open>The \<open>if\<close>/\<open>else if\<close> chain on the rounded distance; \<open>None\<close> is its final \<open>else\<close>.\<close>

definition alertLevel_of :: "real \<Rightarrow> string option" where
  "alertLevel_of d =
     (if d > to_double 60.96 \<and> d \<le> to_double 76.2 then Some ''Warning''
      else if d > to_double 30.48 \<and> d \<le> to_double 60.96 then Some ''Danger''
      else if d \<le> to_double 30.48 then Some ''Critical''
      else None)"

text \<open>\<open>ORDER BY reading_time DESC LIMIT 1\<close>; among equal times the later row of the table.\<close>

fun latest_reading :: "reading list \<Rightarrow> reading option" where
  "latest_reading [] = None"
| "latest_reading (r # rs) =
     (case latest_reading rs of
        None \<Rightarrow> Some r
      | Some m \<Rightarrow> if reading_time r \<le> reading_time m then Some m else Some r)"

text \<open>\<open>WHERE reading_time = ? AND alert_level = ?\<close>: a \<open>NULL\<close> column matches nothing.\<close>

definition is_duplicate :: "int \<Rightarrow> string \<Rightarrow> alert \<Rightarrow> bool" where
  "is_duplicate rt lvl a \<longleftrightarrow> alert_reading_time a = Some rt \<and> alert_level a = lvl"

definition is_active :: "alert \<Rightarrow> bool" where
  "is_active a \<longleftrightarrow> status a = Active"

text \<open>\<open>UPDATE flood_alerts SET status = 'past' WHERE status = 'active'\<close>\<close>

definition mark_all_past :: "alert list \<Rightarrow> alert list" where
  "mark_all_past as = map (\<lambda>a. if is_active a then a\<lparr>status := Past\<rparr> else a) as"

text \<open>\<open>SELECT id FROM flood_alerts WHERE status = 'active' ORDER BY created_at DESC\<close>\<close>

definition select_active :: "alert list \<Rightarrow> alert list" where
  "select_active as = sort_key (\<lambda>a. - created_at a) (filter is_active as)"

text \<open>\<open>UPDATE flood_alerts SET status = 'past' WHERE status = 'active' AND id NOT IN (?, ?)\<close>\<close>

definition demote_except :: "nat list \<Rightarrow> alert list \<Rightarrow> alert list" where
  "demote_except idsToKeep as =
     map (\<lambda>a. if is_active a \<and> alert_id a \<notin> set idsToKeep then a\<lparr>status := Past\<rparr> else a) as"

definition engine_alert :: "nat \<Rightarrow> string \<Rightarrow> reading \<Rightarrow> int \<Rightarrow> alert" where
  "engine_alert i alertLevel latestSensorData now =
     \<lparr>alert_id = i,
      alert_level = alertLevel,
      message = alertLevel @ '' flood level detected.'',
      status = Active,
      source_distance = Some (distance latestSensorData),
      source_flood_level = Some (flood_level latestSensorData),
      alert_reading_time = Some (reading_time latestSensorData),
      created_at = now,
      updated_at = None\<rparr>"

datatype outcome =
    NoData
  | AwaitingConfirmation "int option"
  | AllAlertsCleared
  | NoAlertTriggered
  | DuplicateSkipped
  | AlertRecorded bool
  | EvaluationError

text \<open>
  One run of the handler: \<open>fails\<close> tells which statements throw, \<open>now\<close> is the clock.
  A thrown statement lands in the handler's \<open>catch\<close>; whatever was written before it stays.
  The two timestamps are whole milliseconds; their difference and its quotient by 1000
  are modelled exactly.
\<close>

definition evaluate :: "(query \<Rightarrow> bool) \<Rightarrow> int \<Rightarrow> system \<Rightarrow> outcome \<times> system" where
  "evaluate fails now s =
     (if fails SelectLatestReading then (EvaluationError, s)
      else case latest_reading (sensor_readings s) of
        None \<Rightarrow> (NoData, s)
      | Some latestSensorData \<Rightarrow>
          if distance latestSensorData > to_double 76.2 then
            (case firstSafeDetectedAt s of
               None \<Rightarrow> (AwaitingConfirmation None, s\<lparr>firstSafeDetectedAt := Some now\<rparr>)
             | Some t \<Rightarrow>
                 let elapsedTime = real_of_int (now - t) / 1000 in
                 if elapsedTime \<ge> 300 then
                   (if fails UpdateAllActiveToPast then (EvaluationError, s)
                    else (AllAlertsCleared,
                          s\<lparr>flood_alerts := mark_all_past (flood_alerts s),
                            firstSafeDetectedAt := None\<rparr>))
                 else (AwaitingConfirmation (Some \<lceil>300 - elapsedTime\<rceil>), s))
          else
            let s1 = s\<lparr>firstSafeDetectedAt := None\<rparr> in
            (case alertLevel_of (toFixed2 (distance latestSensorData)) of
               None \<Rightarrow> (NoAlertTriggered, s1)
             | Some alertLevel \<Rightarrow>
                 if fails SelectDuplicate then (EvaluationError, s1)
                 else if filter (is_duplicate (reading_time latestSensorData) alertLevel)
                           (flood_alerts s1) \<noteq> []
                 then (DuplicateSkipped, s1)
                 else if fails InsertAlert then (EvaluationError, s1)
                 else
                   let s2 = s1\<lparr>flood_alerts := flood_alerts s1 @
                          [engine_alert (next_id (map alert_id (flood_alerts s1)))
                             alertLevel latestSensorData now]\<rparr> in
                   if fails SelectActive then (EvaluationError, s2)
                   else
                     let activeAlerts = select_active (flood_alerts s2) in
                     if length activeAlerts > 2 then
                       (let idsToKeep = map alert_id (take 2 activeAlerts) in
                        if fails UpdateDemote then (EvaluationError, s2)
                        else (AlertRecorded True,
                              s2\<lparr>flood_alerts := demote_except idsToKeep (flood_alerts s2)\<rparr>))
                     else (AlertRecorded False, s2)))"

text \<open>
  The JSON body of each \<open>return NextResponse.json(...)\<close> of the handler. None of them
  passes a status, so every response goes out with the default, 200.
\<close>

record response =
  http_status :: nat
  body_success :: bool
  body_message :: string

text \<open>The decimal form a template literal gives the integer that \<open>Math.ceil\<close> returns.\<close>

fun decimal_digits :: "nat \<Rightarrow> string" where
  "decimal_digits n =
     (if n div 10 = 0 then [] else decimal_digits (n div 10)) @ [''0123456789'' ! (n mod 10)]"

declare decimal_digits.simps [simp del]

definition Number_toString :: "int \<Rightarrow> string" where
  "Number_toString i =
     (if i < 0 then CHR ''-'' # decimal_digits (nat (- i)) else decimal_digits (nat i))"

fun respond :: "outcome \<Rightarrow> response" where
  "respond NoData =
     \<lparr>http_status = 200, body_success = False, body_message = ''No sensor data found.''\<rparr>"
| "respond (AwaitingConfirmation None) =
     \<lparr>http_status = 200, body_success = True,
      body_message = ''Water is safe. Waiting for grace period to confirm.''\<rparr>"
| "respond (AwaitingConfirmation (Some secs)) =
     \<lparr>http_status = 200, body_success = True,
      body_message = ''Water is safe. '' @ Number_toString secs @ '' seconds remaining to confirm.''\<rparr>"
| "respond AllAlertsCleared =
     \<lparr>http_status = 200, body_success = True,
      body_message = ''Water level has been safe for 5 minutes. Alerts marked as past.''\<rparr>"
| "respond NoAlertTriggered =
     \<lparr>http_status = 200, body_success = True,
      body_message = ''No flood alert triggered. Water level is safe.''\<rparr>"
| "respond DuplicateSkipped =
     \<lparr>http_status = 200, body_success = True,
      body_message = ''Duplicate alert already exists. Skipping insertion.''\<rparr>"
| "respond (AlertRecorded True) =
     \<lparr>http_status = 200, body_success = True,
      body_message = ''New alert recorded. Older alerts marked as past.''\<rparr>"
| "respond (AlertRecorded False) =
     \<lparr>http_status = 200, body_success = True,
      body_message = ''Flood alert recorded successfully.''\<rparr>"
| "respond EvaluationError =
     \<lparr>http_status = 200, body_success = False,
      body_message = ''Error evaluating flood alert.''\<rparr>"

definition POST_evaluate :: "(query \<Rightarrow> bool) \<Rightarrow> int \<Rightarrow> system \<Rightarrow> response \<times> system" where
  "POST_evaluate fails now s = (case evaluate fails now s of (out, s') \<Rightarrow> (respond out, s'))"

text \<open>
  The severity the engine assigns to a distance: the safe test is made on the raw
  distance, the three alert levels on the rounded one. The last \<open>else\<close> of the chain
  answers "Water level is safe".
\<close>

definition classify :: "real \<Rightarrow> string" where
  "classify d =
     (if d > to_double 76.2 then ''Safe''
      else case alertLevel_of (toFixed2 d) of Some alertLevel \<Rightarrow> alertLevel | None \<Rightarrow> ''Safe'')"

section \<open>The ingest handler\<close>

text \<open>
  The parsed request body. \<open>request.json()\<close> rejects a body that is not JSON, with an
  error whose message the handler sends back (\<open>Inl\<close> below); any JSON value, not only an
  object, parses.
\<close>

datatype json =
    JNull
  | JBool bool
  | JNumber real
  | JString string
  | JArray "json list"
  | JObject "(string \<times> json) list"

text \<open>
  \<open>const { distance, floodLevel, status } = parsedData\<close>: destructuring \<open>null\<close> throws a
  \<open>TypeError\<close>; on an object it reads the three properties (the last of duplicate keys,
  as \<open>JSON.parse\<close> keeps it); on any other value the three are \<open>undefined\<close>.
\<close>

datatype exn = TypeError

fun destructure :: "json \<Rightarrow> exn + (json option \<times> json option \<times> json option)" where
  "destructure JNull = Inl TypeError"
| "destructure (JObject kvs) =
     Inr (map_of (rev kvs) ''distance'', map_of (rev kvs) ''floodLevel'', map_of (rev kvs) ''status'')"
| "destructure _ = Inr (None, None, None)"

text \<open>
  What the handler takes from its platform: \<open>String.prototype.toUpperCase\<close> and
  \<open>toLowerCase\<close>, which convert over all of Unicode by tables of the runtime, and the
  message of the error that a failing database statement throws. They are parameters of
  the model: nothing below fixes them.
\<close>

record platform =
  toUpperCase :: "string \<Rightarrow> string"
  toLowerCase :: "string \<Rightarrow> string"
  error_message :: "query \<Rightarrow> string"

definition ingest_message :: "platform \<Rightarrow> string \<Rightarrow> string" where
  "ingest_message p status_str =
     (if toUpperCase p status_str = ''WARNING'' then ''Warning: Rising Water Level.''
      else if toUpperCase p status_str = ''DANGER'' then ''Danger: High Water Level!''
      else if toUpperCase p status_str = ''CRITICAL''
        then ''Critical Flood Level! Immediate action required.''
      else [])"

definition ingest_alert :: "platform \<Rightarrow> nat \<Rightarrow> string \<Rightarrow> int \<Rightarrow> alert" where
  "ingest_alert p i status_str now =
     \<lparr>alert_id = i,
      alert_level = toLowerCase p status_str,
      message = ingest_message p status_str,
      status = Active,
      source_distance = None,
      source_flood_level = None,
      alert_reading_time = None,
      created_at = now,
      updated_at = Some now\<rparr>"

text \<open>
  The responses. \<open>ir_error\<close> is the \<open>error\<close> field of the body, \<open>rd_timestamp\<close> the clock
  behind the ISO string of \<open>timestamp\<close>. The success message starts with the check mark
  U+2705, three bytes in UTF-8.
\<close>

record receivedData =
  rd_id :: nat
  rd_distance :: real
  rd_floodLevel :: real
  rd_status :: string
  rd_timestamp :: int

record ingest_response =
  ir_http_status :: nat
  ir_success :: bool
  ir_message :: string
  ir_error :: "string option"
  ir_receivedData :: "receivedData option"

definition bad_json_response :: "string \<Rightarrow> ingest_response" where
  "bad_json_response msg =
     \<lparr>ir_http_status = 400, ir_success = False,
      ir_message = ''Invalid JSON format in request body.'',
      ir_error = Some msg, ir_receivedData = None\<rparr>"

definition invalid_data_response :: ingest_response where
  "invalid_data_response =
     \<lparr>ir_http_status = 400, ir_success = False,
      ir_message = ''Missing or invalid sensor data. Expected: number (distance), number (floodLevel), string (status).'',
      ir_error = None, ir_receivedData = None\<rparr>"

definition server_error_response :: "string \<Rightarrow> ingest_response" where
  "server_error_response msg =
     \<lparr>ir_http_status = 500, ir_success = False,
      ir_message = ''Internal Server Error during data processing.'',
      ir_error = Some msg, ir_receivedData = None\<rparr>"

definition stored_response :: "nat \<Rightarrow> real \<Rightarrow> real \<Rightarrow> string \<Rightarrow> int \<Rightarrow> ingest_response" where
  "stored_response insertId d fl st now =
     \<lparr>ir_http_status = 200, ir_success = True,
      ir_message = [CHR 0xE2, CHR 0x9C, CHR 0x85] @
        '' Sensor data successfully stored in the database.'',
      ir_error = None,
      ir_receivedData = Some \<lparr>rd_id = insertId, rd_distance = d, rd_floodLevel = fl,
                              rd_status = st, rd_timestamp = now\<rparr>\<rparr>"

text \<open>
  One run of the ingest handler on a request body. The destructuring stands outside both
  \<open>try\<close> blocks, so its \<open>TypeError\<close> leaves the handler uncaught (\<open>Inl\<close>).
  The \<open>INSERT\<close> into \<open>sensor_readings\<close> names no \<open>reading_time\<close>: the column takes the
  database's clock (modelled from the spec, which gives every Reading a reading time).
\<close>

definition POST_readings ::
    "platform \<Rightarrow> (query \<Rightarrow> bool) \<Rightarrow> int \<Rightarrow> string + json \<Rightarrow> system \<Rightarrow>
       (exn + ingest_response) \<times> system" where
  "POST_readings p fails now body s =
     (case body of
        Inl msg \<Rightarrow> (Inr (bad_json_response msg), s)
      | Inr parsedData \<Rightarrow>
         (case destructure parsedData of
            Inl e \<Rightarrow> (Inl e, s)
          | Inr (Some (JNumber d), Some (JNumber fl), Some (JString st)) \<Rightarrow>
              if fails GetConnection
              then (Inr (server_error_response (error_message p GetConnection)), s)
              else if fails InsertReading
              then (Inr (server_error_response (error_message p InsertReading)), s)
              else
                let insertId = next_id (map reading_id (sensor_readings s));
                    s1 = s\<lparr>sensor_readings := sensor_readings s @
                           [\<lparr>reading_id = insertId, distance = d, flood_level = fl,
                             status_tag = st, reading_time = now\<rparr>]\<rparr>
                in
                if toUpperCase p st = ''WARNING'' \<or> toUpperCase p st = ''DANGER''
                   \<or> toUpperCase p st = ''CRITICAL''
                then
                  (if fails InsertIngestAlert
                   then (Inr (server_error_response (error_message p InsertIngestAlert)), s1)
                   else (Inr (stored_response insertId d fl st now),
                         s1\<lparr>flood_alerts := flood_alerts s1 @
                            [ingest_alert p (next_id (map alert_id (flood_alerts s1))) st now]\<rparr>))
                else (Inr (stored_response insertId d fl st now), s1)
          | Inr _ \<Rightarrow> (Inr invalid_data_response, s)))"

section \<open>Auxiliary notions and example inputs\<close>

text \<open>The rows a run appended to \<open>flood_alerts\<close>: both handlers only ever append.\<close>

definition inserted_alerts :: "system \<Rightarrow> system \<Rightarrow> alert list" where
  "inserted_alerts s s' = drop (length (flood_alerts s)) (flood_alerts s')"

definition no_failure :: "query \<Rightarrow> bool" where
  "no_failure q = False"

definition all_fail :: "query \<Rightarrow> bool" where
  "all_fail q = True"

definition only_fails :: "query \<Rightarrow> query \<Rightarrow> bool" where
  "only_fails q x \<longleftrightarrow> x = q"

text \<open>
  A platform for the examples: the two conversions on the letters a to z and A to Z, every
  other byte kept. On the ASCII strings of the examples this is what the runtime does.
\<close>

definition upper_char :: "char \<Rightarrow> char" where
  "upper_char c =
     (case map_of (zip ''abcdefghijklmnopqrstuvwxyz'' ''ABCDEFGHIJKLMNOPQRSTUVWXYZ'') c of
        Some u \<Rightarrow> u | None \<Rightarrow> c)"

definition lower_char :: "char \<Rightarrow> char" where
  "lower_char c =
     (case map_of (zip ''ABCDEFGHIJKLMNOPQRSTUVWXYZ'' ''abcdefghijklmnopqrstuvwxyz'') c of
        Some l \<Rightarrow> l | None \<Rightarrow> c)"

definition connection_lost :: "query \<Rightarrow> string" where
  "connection_lost q = ''connect ECONNREFUSED''"

definition ascii_platform :: platform where
  "ascii_platform =
     \<lparr>toUpperCase = map upper_char, toLowerCase = map lower_char,
      error_message = connection_lost\<rparr>"

definition empty_system :: system where
  "empty_system = \<lparr>sensor_readings = [], flood_alerts = [], firstSafeDetectedAt = None\<rparr>"

definition reading_body :: "real \<Rightarrow> real \<Rightarrow> string \<Rightarrow> string + json" where
  "reading_body d fl st =
     Inr (JObject [(''distance'', JNumber d), (''floodLevel'', JNumber fl), (''status'', JString st)])"

text \<open>A store holding one reading at distance \<open>d\<close> taken at time \<open>0\<close>, and no alert.\<close>

definition one_reading :: "real \<Rightarrow> int option \<Rightarrow> system" where
  "one_reading d first =
     \<lparr>sensor_readings = [\<lparr>reading_id = 1, distance = d, flood_level = 100 - d,
                           status_tag = ''SENSOR'', reading_time = 0\<rparr>],
      flood_alerts = [],
      firstSafeDetectedAt = first\<rparr>"

text \<open>
  Two active alerts of the engine, created at times 10 and 20, and a later reading at
  distance \<open>d\<close>.
\<close>

definition two_active :: "real \<Rightarrow> int option \<Rightarrow> system" where
  "two_active d first =
     \<lparr>sensor_readings = [\<lparr>reading_id = 1, distance = d, flood_level = 100 - d,
                           status_tag = ''SENSOR'', reading_time = 30\<rparr>],
      flood_alerts =
        [\<lparr>alert_id = 1, alert_level = ''Warning'', message = ''Warning flood level detected.'',
          status = Active, source_distance = Some 70, source_flood_level = Some 30,
          alert_reading_time = Some 10, created_at = 10, updated_at = None\<rparr>,
         \<lparr>alert_id = 2, alert_level = ''Critical'', message = ''Critical flood level detected.'',
          status = Active, source_distance = Some 20, source_flood_level = Some 80,
          alert_reading_time = Some 20, created_at = 20, updated_at = None\<rparr>],
      firstSafeDetectedAt = first\<rparr>"

text \<open>A readings table whose only row is a safe reading (90 cm) taken at time \<open>t\<close>.\<close>

definition safe_readings :: "int \<Rightarrow> reading list" where
  "safe_readings t =
     [\<lparr>reading_id = 2, distance = 90, flood_level = 10, status_tag = ''SAFE'', reading_time = t\<rparr>]"

section \<open>Rounding to a double\<close>

lemma binade_pow_bounds: "0 < x \<Longrightarrow> 0 < binade_pow x \<and> binade_pow x \<le> x \<and> x < 2 * binade_pow x"
proof (induction x rule: binade_pow.induct)
  case (1 x)
  show ?case
  proof (cases "2 \<le> x")
    case True
    then have "0 < binade_pow (x / 2) \<and> binade_pow (x / 2) \<le> x / 2 \<and> x / 2 < 2 * binade_pow (x / 2)"
      using 1 by simp
    then show ?thesis using True "1.prems" by (subst (1 2 3) binade_pow.simps) simp
  next
    case False
    show ?thesis
    proof (cases "x < 1")
      case True
      then have "0 < binade_pow (2 * x) \<and> binade_pow (2 * x) \<le> 2 * x \<and> 2 * x < 2 * binade_pow (2 * x)"
        using 1 False by simp
      then show ?thesis using True False "1.prems" by (subst (1 2 3) binade_pow.simps) simp
    next
      case g: False
      then show ?thesis using False "1.prems" by (subst (1 2 3) binade_pow.simps) simp
    qed
  qed
qed

lemma round_half_even_error: "\<bar>of_int (round_half_even z) - z\<bar> \<le> 1 / 2"
  unfolding round_half_even_def Let_def by (auto; linarith)

lemma round_half_even_nonneg: "0 \<le> z \<Longrightarrow> 0 \<le> round_half_even z"
  unfolding round_half_even_def Let_def by auto

lemma to_double_error: "\<bar>to_double x - x\<bar> \<le> \<bar>x\<bar> / 2 ^ 53"
proof (cases "x = 0")
  case True
  then show ?thesis by (simp add: to_double_def)
next
  case False
  define u where "u = binade_pow \<bar>x\<bar> / 2 ^ 52"
  define r where "r = round_half_even (\<bar>x\<bar> / u)"
  have b: "0 < binade_pow \<bar>x\<bar>" "binade_pow \<bar>x\<bar> \<le> \<bar>x\<bar>"
    using binade_pow_bounds [of "\<bar>x\<bar>"] False by simp_all
  then have u: "0 < u" by (simp add: u_def)
  have "\<bar>of_int r - \<bar>x\<bar> / u\<bar> \<le> 1 / 2" unfolding r_def by (rule round_half_even_error)
  then have "\<bar>of_int r - \<bar>x\<bar> / u\<bar> * u \<le> 1 / 2 * u" using u by (simp add: mult_right_mono)
  moreover have "\<bar>of_int r - \<bar>x\<bar> / u\<bar> * u = \<bar>of_int r * u - \<bar>x\<bar>\<bar>"
  proof -
    have "(of_int r - \<bar>x\<bar> / u) * u = of_int r * u - \<bar>x\<bar>"
      using u by (simp add: left_diff_distrib)
    then have "\<bar>of_int r * u - \<bar>x\<bar>\<bar> = \<bar>of_int r - \<bar>x\<bar> / u\<bar> * \<bar>u\<bar>"
      by (simp only: abs_mult [symmetric])
    then show ?thesis using u by simp
  qed
  ultimately have e: "\<bar>of_int r * u - \<bar>x\<bar>\<bar> \<le> u / 2" by simp
  have "u / 2 \<le> \<bar>x\<bar> / 2 ^ 53" using b(2) by (simp add: u_def)
  then have e': "\<bar>of_int r * u - \<bar>x\<bar>\<bar> \<le> \<bar>x\<bar> / 2 ^ 53" using e by linarith
  have td: "to_double x = sgn x * (of_int r * u)"
    using False by (simp add: to_double_def r_def u_def Let_def)
  show ?thesis
  proof (cases "0 < x")
    case True
    then show ?thesis using e' td by simp
  next
    case neg: False
    then have "x < 0" using False by simp
    then have "to_double x - x = - (of_int r * u - \<bar>x\<bar>)" using td by simp
    then have "\<bar>to_double x - x\<bar> = \<bar>of_int r * u - \<bar>x\<bar>\<bar>" by (simp only: abs_minus_cancel)
    then show ?thesis using e' by simp
  qed
qed


lemma to_double_upper: "to_double y \<le> y + \<bar>y\<bar> / 2 ^ 53"
  using to_double_error [of y] by linarith

lemma to_double_lower: "y - \<bar>y\<bar> / 2 ^ 53 \<le> to_double y"
  using to_double_error [of y] by linarith

lemma to_double_cents_le_iff:
  assumes "0 < k" "k \<le> 10000"
  shows "to_double (of_int n / 100) \<le> to_double (of_int k / 100) \<longleftrightarrow> n \<le> k"
proof
  assume le: "to_double (of_int n / 100) \<le> to_double (of_int k / 100)"
  show "n \<le> k"
  proof (rule ccontr)
    assume "\<not> n \<le> k"
    then have n: "real_of_int k + 1 \<le> real_of_int n" by linarith
    have k: "0 < real_of_int k" "real_of_int k \<le> 10000" using assms by simp_all
    have "to_double (of_int k / 100) \<le> of_int k / 100 + (of_int k / 100) / 2 ^ 53"
      using to_double_upper [of "of_int k / 100"] k by simp
    moreover have "of_int n / 100 - (of_int n / 100) / 2 ^ 53 \<le> to_double (of_int n / 100)"
      using to_double_lower [of "of_int n / 100"] n k by simp
    ultimately show False using le n k by simp
  qed
next
  assume nk: "n \<le> k"
  have k: "0 < real_of_int k" "real_of_int k \<le> 10000" using assms by simp_all
  have lowk: "of_int k / 100 - (of_int k / 100) / 2 ^ 53 \<le> to_double (of_int k / 100)"
    using to_double_lower [of "of_int k / 100"] k by simp
  show "to_double (of_int n / 100) \<le> to_double (of_int k / 100)"
  proof (cases "n = k")
    case True
    then show ?thesis by simp
  next
    case False
    then have n: "real_of_int n \<le> real_of_int k - 1" using nk by linarith
    show ?thesis
    proof (cases "0 < n")
      case True
      then have "to_double (of_int n / 100) \<le> of_int n / 100 + (of_int n / 100) / 2 ^ 53"
        using to_double_upper [of "of_int n / 100"] by simp
      then show ?thesis using lowk n k by simp
    next
      case neg: False
      define y where "y = real_of_int n / 100"
      have y: "y \<le> 0" using neg by (simp add: y_def)
      then have "to_double y \<le> y + (- y) / 2 ^ 53"
        using to_double_upper [of y] by simp
      also have "\<dots> \<le> 0" using y by simp
      finally have "to_double (of_int n / 100) \<le> 0" by (simp add: y_def)
      moreover have "0 \<le> to_double (of_int k / 100)" using lowk k by simp
      ultimately show ?thesis by linarith
    qed
  qed
qed

lemma toFixed2_le_iff:
  assumes "0 < k" "k \<le> 10000"
  shows "toFixed2 x \<le> to_double (of_int k / 100) \<longleftrightarrow> x < (of_int k + 1 / 2) / 100"
proof (cases "x < 0")
  case True
  have "0 \<le> - x * 100 + 1 / 2" using True by simp
  then have "0 \<le> \<lfloor>- x * 100 + 1 / 2\<rfloor>" by simp
  then have "- \<lfloor>- x * 100 + 1 / 2\<rfloor> \<le> k" using assms by linarith
  moreover have "toFixed2 x = to_double (of_int (- \<lfloor>- x * 100 + 1 / 2\<rfloor>) / 100)"
    using True by (simp add: toFixed2_def)
  ultimately have "toFixed2 x \<le> to_double (of_int k / 100)"
    using to_double_cents_le_iff [OF assms, of "- \<lfloor>- x * 100 + 1 / 2\<rfloor>"] by simp
  moreover have "x < (of_int k + 1 / 2) / 100" using True assms by (simp add: field_simps)
  ultimately show ?thesis by simp
next
  case False
  have "toFixed2 x = to_double (of_int \<lfloor>x * 100 + 1 / 2\<rfloor> / 100)"
    using False by (simp add: toFixed2_def)
  then have "toFixed2 x \<le> to_double (of_int k / 100) \<longleftrightarrow> \<lfloor>x * 100 + 1 / 2\<rfloor> \<le> k"
    using to_double_cents_le_iff [OF assms, of "\<lfloor>x * 100 + 1 / 2\<rfloor>"] by simp
  also have "\<dots> \<longleftrightarrow> x * 100 + 1 / 2 < of_int k + 1"
    by (simp add: floor_le_iff)
  also have "\<dots> \<longleftrightarrow> x < (of_int k + 1 / 2) / 100"
    by (auto simp: field_simps)
  finally show ?thesis .
qed

lemma toFixed2_le_7620: "toFixed2 d \<le> to_double 76.2 \<longleftrightarrow> d < 76.205"
  using toFixed2_le_iff [of 7620 d] by simp

lemma toFixed2_le_6096: "toFixed2 d \<le> to_double 60.96 \<longleftrightarrow> d < 60.965"
  using toFixed2_le_iff [of 6096 d] by simp

lemma toFixed2_le_3048: "toFixed2 d \<le> to_double 30.48 \<longleftrightarrow> d < 30.485"
  using toFixed2_le_iff [of 3048 d] by simp

lemma to_double_762_bounds: "76.2 < to_double 76.2" "to_double 76.2 < 76.205"
  by code_simp+

lemma safe_test_examples:
  "to_double 76.2 < 90" "\<not> to_double 76.2 < 50" "\<not> to_double 76.2 < 25"
  "\<not> to_double 76.2 < 70"
  using to_double_762_bounds by simp_all

lemma alertLevel_of_toFixed2:
  assumes "d \<le> to_double 76.2"
  shows "alertLevel_of (toFixed2 d) =
     Some (if 60.965 \<le> d then ''Warning'' else if 30.485 \<le> d then ''Danger'' else ''Critical'')"
proof -
  have "d < 76.205" using assms to_double_762_bounds(2) by (rule le_less_trans)
  then show ?thesis
    using toFixed2_le_7620 [of d] toFixed2_le_6096 [of d] toFixed2_le_3048 [of d]
    by (auto simp: alertLevel_of_def not_le not_less)
qed

lemma alertLevel_of_classify:
  "d \<le> to_double 76.2 \<Longrightarrow> alertLevel_of (toFixed2 d) = Some (classify d)"
  by (simp add: classify_def alertLevel_of_toFixed2)

section \<open>Severity bands\<close>

text \<open>
  C5 (as amended). On the exact value \<open>d\<close> of the distance: the engine's severity is Safe
  exactly when \<open>d\<close> is above the double written 76.2. Otherwise the level is read off
  the distance rounded to two decimals, so the bands are: Warning from 60.965 up to the
  double 76.2, Danger from 30.485 up to (not including) 60.965, Critical below 30.485.
  Every distance is in exactly one band; the number 76.2 is Warning, the number 76.2001 is
  Safe, and the number written 30.485, a double just below 30.485, is Critical.
\<close>

theorem classify_bands:
  "(classify d = ''Safe'' \<longleftrightarrow> d > to_double 76.2) \<and>
   (classify d = ''Warning'' \<longleftrightarrow> 60.965 \<le> d \<and> d \<le> to_double 76.2) \<and>
   (classify d = ''Danger'' \<longleftrightarrow> 30.485 \<le> d \<and> d < 60.965) \<and>
   (classify d = ''Critical'' \<longleftrightarrow> d < 30.485) \<and>
   classify d \<in> {''Safe'', ''Warning'', ''Danger'', ''Critical''} \<and>
   classify (to_double 76.2) = ''Warning'' \<and> classify (to_double 76.2001) = ''Safe'' \<and>
   classify (to_double 30.485) = ''Critical''"
proof -
  have ex: "classify (to_double 76.2) = ''Warning''" "classify (to_double 76.2001) = ''Safe''"
    "classify (to_double 30.485) = ''Critical''"
    by code_simp+
  show ?thesis
  proof (cases "d > to_double 76.2")
    case True
    then show ?thesis using ex to_double_762_bounds by (simp add: classify_def)
  next
    case False
    then have "d \<le> to_double 76.2" by simp
    then show ?thesis
      using ex alertLevel_of_toFixed2 [of d] to_double_762_bounds by (auto simp: classify_def)
  qed
qed

text \<open>
  C5 as stated fails: the number 60.964 lies in the stated Warning band (above the number
  60.96, at most the number 76.2), yet it rounds to 60.96 and the engine calls it Danger.
\<close>

theorem classify_bands_counterexample:
  "to_double 60.96 < to_double 60.964 \<and> to_double 60.964 \<le> to_double 76.2 \<and>
   classify (to_double 60.964) \<noteq> ''Warning'' \<and> classify (to_double 60.964) = ''Danger''"
  by code_simp

section \<open>The safe branch and the grace period\<close>

lemma mark_all_past_eq: "mark_all_past as = map (\<lambda>a. a\<lparr>status := Past\<rparr>) as"
  by (induction as) (auto simp: mark_all_past_def is_active_def intro: alert_status.exhaust)

lemma ceiling_remaining:
  fixes e :: int
  shows "1000 * (\<lceil>300 - real_of_int e / 1000\<rceil> - 1) < 300000 - e \<and>
         300000 - e \<le> 1000 * \<lceil>300 - real_of_int e / 1000\<rceil>"
proof -
  define c where "c = \<lceil>300 - real_of_int e / 1000\<rceil>"
  have "real_of_int c - 1 < 300 - real_of_int e / 1000" "300 - real_of_int e / 1000 \<le> real_of_int c"
    unfolding c_def by linarith+
  then have "real_of_int (1000 * (c - 1)) < real_of_int (300000 - e)"
      "real_of_int (300000 - e) \<le> real_of_int (1000 * c)"
    by (simp_all add: field_simps)
  then have "1000 * (c - 1) < 300000 - e" "300000 - e \<le> 1000 * c"
    by linarith+
  then show ?thesis unfolding c_def by simp
qed

lemma evaluate_safe_unset:
  assumes "\<not> fails SelectLatestReading" "latest_reading (sensor_readings s) = Some r"
    "distance r > to_double 76.2" "firstSafeDetectedAt s = None"
  shows "evaluate fails now s = (AwaitingConfirmation None, s\<lparr>firstSafeDetectedAt := Some now\<rparr>)"
  using assms by (simp add: evaluate_def)

lemma evaluate_safe_elapsed:
  assumes "\<not> fails SelectLatestReading" "latest_reading (sensor_readings s) = Some r"
    "distance r > to_double 76.2" "firstSafeDetectedAt s = Some t" "300000 \<le> now - t"
    "\<not> fails UpdateAllActiveToPast"
  shows "evaluate fails now s =
           (AllAlertsCleared,
            s\<lparr>flood_alerts := map (\<lambda>a. a\<lparr>status := Past\<rparr>) (flood_alerts s),
              firstSafeDetectedAt := None\<rparr>)"
proof -
  have "300 \<le> real_of_int (now - t) / 1000" using assms(5) by simp
  then show ?thesis using assms by (simp add: evaluate_def mark_all_past_eq)
qed

lemma evaluate_safe_waiting:
  assumes "\<not> fails SelectLatestReading" "latest_reading (sensor_readings s) = Some r"
    "distance r > to_double 76.2" "firstSafeDetectedAt s = Some t" "now - t < 300000"
  shows "evaluate fails now s =
           (AwaitingConfirmation (Some \<lceil>300 - real_of_int (now - t) / 1000\<rceil>), s)"
proof -
  have "\<not> 300 \<le> real_of_int (now - t) / 1000" using assms(5) by simp
  then show ?thesis using assms by (simp add: evaluate_def)
qed

text \<open>
  C2. A run that fetched a Safe reading (distance above the number 76.2): with the
  timer unset it
  sets the timer to the current time and answers AwaitingConfirmation, the store untouched;
  with the timer set and at least 300 s (300000 ms) elapsed it turns every alert to past
  (the bulk update going through), clears the timer and answers AllAlertsCleared; with
  less than 300 s elapsed it answers AwaitingConfirmation with the remaining seconds
  (rounded up) and changes neither the store nor the timer.
\<close>

theorem safe_branch:
  assumes "\<not> fails SelectLatestReading"
    and "latest_reading (sensor_readings s) = Some r"
    and "distance r > to_double 76.2"
  shows "(firstSafeDetectedAt s = None \<longrightarrow>
            evaluate fails now s = (AwaitingConfirmation None, s\<lparr>firstSafeDetectedAt := Some now\<rparr>)) \<and>
         (\<forall>t. firstSafeDetectedAt s = Some t \<and> 300000 \<le> now - t \<and> \<not> fails UpdateAllActiveToPast \<longrightarrow>
            evaluate fails now s =
              (AllAlertsCleared,
               s\<lparr>flood_alerts := map (\<lambda>a. a\<lparr>status := Past\<rparr>) (flood_alerts s),
                 firstSafeDetectedAt := None\<rparr>)) \<and>
         (\<forall>t. firstSafeDetectedAt s = Some t \<and> now - t < 300000 \<longrightarrow>
            (\<exists>secs. evaluate fails now s = (AwaitingConfirmation (Some secs), s) \<and>
               1000 * (secs - 1) < 300000 - (now - t) \<and> 300000 - (now - t) \<le> 1000 * secs))"
proof (intro conjI allI impI)
  assume "firstSafeDetectedAt s = None"
  then show "evaluate fails now s = (AwaitingConfirmation None, s\<lparr>firstSafeDetectedAt := Some now\<rparr>)"
    using evaluate_safe_unset [of fails s r now] assms by simp
next
  fix t
  assume "firstSafeDetectedAt s = Some t \<and> 300000 \<le> now - t \<and> \<not> fails UpdateAllActiveToPast"
  then show "evaluate fails now s =
              (AllAlertsCleared,
               s\<lparr>flood_alerts := map (\<lambda>a. a\<lparr>status := Past\<rparr>) (flood_alerts s),
                 firstSafeDetectedAt := None\<rparr>)"
    using evaluate_safe_elapsed [of fails s r t now] assms by simp
next
  fix t
  assume h: "firstSafeDetectedAt s = Some t \<and> now - t < 300000"
  then have "evaluate fails now s =
           (AwaitingConfirmation (Some \<lceil>300 - real_of_int (now - t) / 1000\<rceil>), s)"
    using evaluate_safe_waiting [of fails s r t now] assms by simp
  then show "\<exists>secs. evaluate fails now s = (AwaitingConfirmation (Some secs), s) \<and>
               1000 * (secs - 1) < 300000 - (now - t) \<and> 300000 - (now - t) \<le> 1000 * secs"
    using ceiling_remaining [of "now - t"] by blast
qed

lemma latest_two_active:
  "latest_reading (sensor_readings (two_active d first)) =
     Some \<lparr>reading_id = 1, distance = d, flood_level = 100 - d,
           status_tag = ''SENSOR'', reading_time = 30\<rparr>"
  by (simp add: two_active_def)

text \<open>
  The store with two active alerts, a reading at 90 cm and the timer started at time 0:
  a run at 301 s clears both alerts, a run at 299.5 s waits one more second.
\<close>

theorem safe_branch_witness:
  "\<not> no_failure SelectLatestReading \<and> \<not> no_failure UpdateAllActiveToPast \<and>
   firstSafeDetectedAt (two_active 90 (Some 0)) = Some 0 \<and>
   fst (evaluate no_failure 301000 (two_active 90 (Some 0))) = AllAlertsCleared \<and>
   map status (flood_alerts (snd (evaluate no_failure 301000 (two_active 90 (Some 0))))) = [Past, Past] \<and>
   firstSafeDetectedAt (snd (evaluate no_failure 301000 (two_active 90 (Some 0)))) = None \<and>
   evaluate no_failure 299500 (two_active 90 (Some 0)) =
     (AwaitingConfirmation (Some 1), two_active 90 (Some 0))"
proof -
  have h1: "\<not> no_failure SelectLatestReading" and h1': "\<not> no_failure UpdateAllActiveToPast"
    by (simp_all add: no_failure_def)
  note h2 = latest_two_active [of 90 "Some 0"]
  have h3: "distance \<lparr>reading_id = 1, distance = 90, flood_level = 100 - 90,
              status_tag = ''SENSOR'', reading_time = 30\<rparr> > to_double 76.2"
    using safe_test_examples by simp
  have f: "firstSafeDetectedAt (two_active 90 (Some 0)) = Some 0"
    by (simp add: two_active_def)
  have "evaluate no_failure 301000 (two_active 90 (Some 0)) =
          (AllAlertsCleared,
           (two_active 90 (Some 0))\<lparr>flood_alerts :=
               map (\<lambda>a. a\<lparr>status := Past\<rparr>) (flood_alerts (two_active 90 (Some 0))),
             firstSafeDetectedAt := None\<rparr>)"
    using safe_branch [of no_failure "two_active 90 (Some 0)" _ 301000, OF h1 h2 h3] f h1'
    by simp
  then have a: "fst (evaluate no_failure 301000 (two_active 90 (Some 0))) = AllAlertsCleared"
    and b: "map status (flood_alerts (snd (evaluate no_failure 301000 (two_active 90 (Some 0))))) = [Past, Past]"
    and c: "firstSafeDetectedAt (snd (evaluate no_failure 301000 (two_active 90 (Some 0)))) = None"
    by (simp_all add: two_active_def)
  obtain secs where w: "evaluate no_failure 299500 (two_active 90 (Some 0)) =
        (AwaitingConfirmation (Some secs), two_active 90 (Some 0))"
      and "1000 * (secs - 1) < 300000 - (299500 - 0)" "300000 - (299500 - 0) \<le> 1000 * secs"
    using safe_branch [of no_failure "two_active 90 (Some 0)" _ 299500, OF h1 h2 h3] f
    by auto
  then have "secs = 1" by simp
  then show ?thesis using h1 h1' f a b c w by simp
qed

section \<open>Adverse readings and the timer\<close>

lemma evaluate_adverse_clears:
  assumes "\<not> fails SelectLatestReading" "latest_reading (sensor_readings s) = Some r"
    "distance r \<le> to_double 76.2"
  shows "firstSafeDetectedAt (snd (evaluate fails now s)) = None"
  using assms by (simp add: evaluate_def Let_def split: option.splits)

lemma evaluate_sensor_readings:
  "sensor_readings (snd (evaluate fails now s)) = sensor_readings s"
  by (simp add: evaluate_def Let_def split: option.splits)

text \<open>
  C3. A run that fetched an adverse reading (distance at most the number 76.2) leaves the timer
  unset, whatever else happens in the run. So when the next reading is safe again, the run
  at time \<open>t2\<close> that sees it starts the timer at \<open>t2\<close>, and every later run on a safe
  reading before \<open>t2 + 300 s\<close> answers AwaitingConfirmation and changes nothing: no alert
  is cleared before 300 s have passed since the second safe start.
\<close>

theorem adverse_restarts_timer:
  assumes "\<not> fails SelectLatestReading" "\<not> fails' SelectLatestReading"
      "\<not> fails'' SelectLatestReading"
    and "latest_reading (sensor_readings s) = Some r" "distance r \<le> to_double 76.2"
    and "latest_reading rs = Some r'" "distance r' > to_double 76.2"
    and "t < t2 + 300000"
  shows "firstSafeDetectedAt (snd (evaluate fails t1 s)) = None \<and>
         evaluate fails' t2 ((snd (evaluate fails t1 s))\<lparr>sensor_readings := rs\<rparr>) =
           (AwaitingConfirmation None,
            (snd (evaluate fails t1 s))\<lparr>sensor_readings := rs, firstSafeDetectedAt := Some t2\<rparr>) \<and>
         (\<exists>secs. evaluate fails'' t
             ((snd (evaluate fails t1 s))\<lparr>sensor_readings := rs, firstSafeDetectedAt := Some t2\<rparr>) =
           (AwaitingConfirmation (Some secs),
            (snd (evaluate fails t1 s))\<lparr>sensor_readings := rs, firstSafeDetectedAt := Some t2\<rparr>))"
proof -
  define s1 where "s1 = snd (evaluate fails t1 s)"
  have c: "firstSafeDetectedAt s1 = None"
    unfolding s1_def using evaluate_adverse_clears [of fails s r t1] assms by simp
  have "evaluate fails' t2 (s1\<lparr>sensor_readings := rs\<rparr>) =
          (AwaitingConfirmation None, s1\<lparr>sensor_readings := rs, firstSafeDetectedAt := Some t2\<rparr>)"
    using evaluate_safe_unset [of fails' "s1\<lparr>sensor_readings := rs\<rparr>" r' t2] assms c by simp
  moreover have "evaluate fails'' t (s1\<lparr>sensor_readings := rs, firstSafeDetectedAt := Some t2\<rparr>) =
          (AwaitingConfirmation (Some \<lceil>300 - real_of_int (t - t2) / 1000\<rceil>),
           s1\<lparr>sensor_readings := rs, firstSafeDetectedAt := Some t2\<rparr>)"
    using evaluate_safe_waiting
      [of fails'' "s1\<lparr>sensor_readings := rs, firstSafeDetectedAt := Some t2\<rparr>" r' t2 t]
      assms by simp
  ultimately show ?thesis using c unfolding s1_def by blast
qed

text \<open>
  The sequence of the specification with \<open>t0 = 0\<close>: the timer stands at 0 from a first safe
  reading, an adverse reading (50 cm) is evaluated at 100 s, a safe one at 150 s, and a
  run at 449.999 s, more than 300 s after the first safe start, still has to wait.
\<close>

theorem adverse_restarts_timer_witness:
  "firstSafeDetectedAt (two_active 50 (Some 0)) = Some 0 \<and>
   (449999::int) < 150000 + 300000 \<and>
   firstSafeDetectedAt (snd (evaluate no_failure 100000 (two_active 50 (Some 0)))) = None \<and>
   evaluate no_failure 150000
      ((snd (evaluate no_failure 100000 (two_active 50 (Some 0))))
         \<lparr>sensor_readings := safe_readings 150000\<rparr>) =
     (AwaitingConfirmation None,
      (snd (evaluate no_failure 100000 (two_active 50 (Some 0))))
         \<lparr>sensor_readings := safe_readings 150000, firstSafeDetectedAt := Some 150000\<rparr>) \<and>
   (\<exists>secs. evaluate no_failure 449999
      ((snd (evaluate no_failure 100000 (two_active 50 (Some 0))))
         \<lparr>sensor_readings := safe_readings 150000, firstSafeDetectedAt := Some 150000\<rparr>) =
     (AwaitingConfirmation (Some secs),
      (snd (evaluate no_failure 100000 (two_active 50 (Some 0))))
         \<lparr>sensor_readings := safe_readings 150000, firstSafeDetectedAt := Some 150000\<rparr>))"
proof -
  have h1: "\<not> no_failure SelectLatestReading" by (simp add: no_failure_def)
  note h2 = latest_two_active [of 50 "Some 0"]
  have h3: "distance \<lparr>reading_id = 1, distance = 50, flood_level = 100 - 50,
              status_tag = ''SENSOR'', reading_time = 30\<rparr> \<le> to_double 76.2"
    using safe_test_examples by simp
  have h4: "latest_reading (safe_readings 150000) =
      Some \<lparr>reading_id = 2, distance = 90, flood_level = 10, status_tag = ''SAFE'',
            reading_time = 150000\<rparr>"
    by (simp add: safe_readings_def)
  have h5: "distance \<lparr>reading_id = 2, distance = 90, flood_level = 10, status_tag = ''SAFE'',
            reading_time = 150000\<rparr> > to_double 76.2"
    using safe_test_examples by simp
  have h6: "(449999::int) < 150000 + 300000" by simp
  have f: "firstSafeDetectedAt (two_active 50 (Some 0)) = Some 0"
    by (simp add: two_active_def)
  show ?thesis
    using adverse_restarts_timer
      [of no_failure no_failure no_failure "two_active 50 (Some 0)" _ "safe_readings 150000" _
          449999 150000 100000, OF h1 h1 h1 h2 h3 h4 h5 h6] f h6
    by simp
qed

section \<open>Failing statements\<close>

text \<open>What a run leaves behind when one of its statements throws, statement by statement.\<close>

lemma evaluate_fetch_fails:
  "fails SelectLatestReading \<Longrightarrow> evaluate fails now s = (EvaluationError, s)"
  by (simp add: evaluate_def)

lemma evaluate_clear_fails:
  assumes "\<not> fails SelectLatestReading" "latest_reading (sensor_readings s) = Some r"
    and "to_double 76.2 < distance r" "firstSafeDetectedAt s = Some t" "300000 \<le> now - t"
    and "fails UpdateAllActiveToPast"
  shows "evaluate fails now s = (EvaluationError, s)"
proof -
  have "300 \<le> real_of_int (now - t) / 1000" using assms(5) by simp
  then show ?thesis using assms by (simp add: evaluate_def)
qed

lemma evaluate_duplicate_fails:
  assumes "\<not> fails SelectLatestReading" "latest_reading (sensor_readings s) = Some r"
    and "distance r \<le> to_double 76.2" "fails SelectDuplicate"
  shows "evaluate fails now s = (EvaluationError, s\<lparr>firstSafeDetectedAt := None\<rparr>)"
  using assms by (simp add: evaluate_def alertLevel_of_classify)

lemma evaluate_insert_fails:
  assumes "\<not> fails SelectLatestReading" "latest_reading (sensor_readings s) = Some r"
    and "distance r \<le> to_double 76.2" "\<not> fails SelectDuplicate"
    and "filter (is_duplicate (reading_time r) (classify (distance r))) (flood_alerts s) = []"
    and "fails InsertAlert"
  shows "evaluate fails now s = (EvaluationError, s\<lparr>firstSafeDetectedAt := None\<rparr>)"
  using assms by (simp add: evaluate_def alertLevel_of_classify)

lemma length_select_active: "length (select_active as) = length (filter is_active as)"
  by (simp add: select_active_def)

lemma engine_alert_active: "is_active (engine_alert i lvl r now)"
  by (simp add: engine_alert_def is_active_def)

lemma evaluate_cap_fails:
  assumes "\<not> fails SelectLatestReading" "latest_reading (sensor_readings s) = Some r"
    and "distance r \<le> to_double 76.2" "\<not> fails SelectDuplicate"
    and "filter (is_duplicate (reading_time r) (classify (distance r))) (flood_alerts s) = []"
    and "\<not> fails InsertAlert"
    and "fails SelectActive \<or>
         (2 \<le> length (filter is_active (flood_alerts s)) \<and> fails UpdateDemote)"
  shows "evaluate fails now s =
           (EvaluationError,
            s\<lparr>flood_alerts := flood_alerts s @
                 [engine_alert (next_id (map alert_id (flood_alerts s)))
                    (classify (distance r)) r now],
              firstSafeDetectedAt := None\<rparr>)"
  using assms
  by (auto simp: evaluate_def alertLevel_of_classify Let_def length_select_active
      engine_alert_active)

lemma evaluate_error_cases:
  assumes "fst (evaluate fails now s) = EvaluationError"
  shows "snd (evaluate fails now s) = s \<or>
    (\<exists>r. \<not> fails SelectLatestReading \<and> latest_reading (sensor_readings s) = Some r \<and>
       distance r \<le> to_double 76.2 \<and>
       (snd (evaluate fails now s) = s\<lparr>firstSafeDetectedAt := None\<rparr> \<or>
        snd (evaluate fails now s) =
          s\<lparr>flood_alerts := flood_alerts s @
               [engine_alert (next_id (map alert_id (flood_alerts s)))
                  (classify (distance r)) r now],
            firstSafeDetectedAt := None\<rparr>))"
proof (cases "fails SelectLatestReading")
  case True
  then show ?thesis by (simp add: evaluate_fetch_fails)
next
  case False
  show ?thesis
  proof (cases "latest_reading (sensor_readings s)")
    case None
    then show ?thesis using False assms by (simp add: evaluate_def)
  next
    case (Some r)
    show ?thesis
    proof (cases "to_double 76.2 < distance r")
      case True
      then show ?thesis
        using False Some assms
        by (auto simp: evaluate_def Let_def split: option.splits if_splits)
    next
      case adverse: False
      then have d: "distance r \<le> to_double 76.2" by simp
      show ?thesis
        using False Some d adverse assms
        by (auto simp: evaluate_def alertLevel_of_classify Let_def split: if_splits)
    qed
  qed
qed

lemma evaluate_no_failure_no_error:
  "\<forall>q. \<not> fails q \<Longrightarrow> fst (evaluate fails now s) \<noteq> EvaluationError"
  by (simp add: evaluate_def Let_def split: option.splits)

text \<open>
  C6 (as amended). A run in which a statement throws ends with the error outcome, and
  nothing is rolled back. If the fetch of the latest reading throws, or the reading is
  safe and the bulk update throws, the whole state is as before. If the reading is adverse
  the timer is cleared before any alert statement runs: when the duplicate check or the
  insert throws, the state is the old one with the timer unset; when the insert went
  through and the listing of active alerts or the demoting update throws, the new active
  alert stays in the table as well and no alert is demoted. A run ends in the error
  outcome only in one of these ways, and never when no statement throws.
\<close>

theorem error_effects:
  "(fails SelectLatestReading \<longrightarrow> evaluate fails now s = (EvaluationError, s)) \<and>
   (\<not> fails SelectLatestReading \<and> latest_reading (sensor_readings s) = Some r \<longrightarrow>
      (to_double 76.2 < distance r \<and> firstSafeDetectedAt s = Some t \<and> 300000 \<le> now - t \<and>
       fails UpdateAllActiveToPast \<longrightarrow>
         evaluate fails now s = (EvaluationError, s)) \<and>
      (distance r \<le> to_double 76.2 \<and> fails SelectDuplicate \<longrightarrow>
         evaluate fails now s = (EvaluationError, s\<lparr>firstSafeDetectedAt := None\<rparr>)) \<and>
      (distance r \<le> to_double 76.2 \<and> \<not> fails SelectDuplicate \<and>
       filter (is_duplicate (reading_time r) (classify (distance r))) (flood_alerts s) = [] \<longrightarrow>
         (fails InsertAlert \<longrightarrow>
            evaluate fails now s = (EvaluationError, s\<lparr>firstSafeDetectedAt := None\<rparr>)) \<and>
         (\<not> fails InsertAlert \<and>
          (fails SelectActive \<or>
           (2 \<le> length (filter is_active (flood_alerts s)) \<and> fails UpdateDemote)) \<longrightarrow>
            evaluate fails now s =
              (EvaluationError,
               s\<lparr>flood_alerts := flood_alerts s @
                    [engine_alert (next_id (map alert_id (flood_alerts s)))
                       (classify (distance r)) r now],
                 firstSafeDetectedAt := None\<rparr>)))) \<and>
   (fst (evaluate fails now s) = EvaluationError \<longrightarrow>
      snd (evaluate fails now s) = s \<or>
      (\<exists>r'. \<not> fails SelectLatestReading \<and> latest_reading (sensor_readings s) = Some r' \<and>
         distance r' \<le> to_double 76.2 \<and>
         (snd (evaluate fails now s) = s\<lparr>firstSafeDetectedAt := None\<rparr> \<or>
          snd (evaluate fails now s) =
            s\<lparr>flood_alerts := flood_alerts s @
                 [engine_alert (next_id (map alert_id (flood_alerts s)))
                    (classify (distance r')) r' now],
              firstSafeDetectedAt := None\<rparr>))) \<and>
   ((\<forall>q. \<not> fails q) \<longrightarrow> fst (evaluate fails now s) \<noteq> EvaluationError)"
  using evaluate_fetch_fails [of fails now s]
    evaluate_clear_fails [of fails s r t now]
    evaluate_duplicate_fails [of fails s r now]
    evaluate_insert_fails [of fails s r now]
    evaluate_cap_fails [of fails s r now]
    evaluate_error_cases [of fails now s]
    evaluate_no_failure_no_error [of fails now s]
  by blast

text \<open>
  Two alerts are active, the latest reading is adverse (50 cm), the timer stands at 0 and
  the demoting update throws: the run reports the error, the timer is unset, and the
  third alert stays in the table, none demoted.
\<close>

theorem error_effects_witness:
  "\<not> only_fails UpdateDemote SelectLatestReading \<and>
   only_fails UpdateDemote UpdateDemote \<and>
   2 \<le> length (filter is_active (flood_alerts (two_active 50 (Some 0)))) \<and>
   evaluate (only_fails UpdateDemote) 40 (two_active 50 (Some 0)) =
     (EvaluationError,
      (two_active 50 (Some 0))
        \<lparr>flood_alerts := flood_alerts (two_active 50 (Some 0)) @
           [engine_alert (next_id (map alert_id (flood_alerts (two_active 50 (Some 0)))))
              (classify 50)
              \<lparr>reading_id = 1, distance = 50, flood_level = 100 - 50,
                status_tag = ''SENSOR'', reading_time = 30\<rparr> 40],
         firstSafeDetectedAt := None\<rparr>)"
proof -
  let ?r = "\<lparr>reading_id = 1, distance = 50, flood_level = 100 - 50,
              status_tag = ''SENSOR'', reading_time = 30\<rparr>"
  have f: "\<not> only_fails UpdateDemote SelectLatestReading"
      "\<not> only_fails UpdateDemote SelectDuplicate" "\<not> only_fails UpdateDemote InsertAlert"
      "only_fails UpdateDemote UpdateDemote"
    by (simp_all add: only_fails_def)
  have l: "latest_reading (sensor_readings (two_active 50 (Some 0))) = Some ?r"
    by (simp add: two_active_def)
  have d: "distance ?r \<le> to_double 76.2" using safe_test_examples by simp
  have n: "filter (is_duplicate (reading_time ?r) (classify (distance ?r)))
             (flood_alerts (two_active 50 (Some 0))) = []"
    by (simp add: two_active_def is_duplicate_def)
  have c: "2 \<le> length (filter is_active (flood_alerts (two_active 50 (Some 0))))"
    by (simp add: two_active_def is_active_def)
  show ?thesis
    using error_effects [of "only_fails UpdateDemote" 40 "two_active 50 (Some 0)" ?r] f l d n c
    by simp
qed

text \<open>
  C6 as stated fails. The timer stands at 0, the latest reading is adverse (50 cm) and the
  duplicate check throws: the run reports the error, but the timer is gone. And when the
  run fails after its insert (the listing of active alerts throws), the new alert stays.
\<close>

theorem error_effects_counterexample:
  "fst (evaluate (only_fails SelectDuplicate) 40 (one_reading 50 (Some 0))) = EvaluationError \<and>
   firstSafeDetectedAt (one_reading 50 (Some 0)) = Some 0 \<and>
   firstSafeDetectedAt (snd (evaluate (only_fails SelectDuplicate) 40 (one_reading 50 (Some 0)))) = None \<and>
   fst (evaluate (only_fails SelectActive) 40 (one_reading 50 (Some 0))) = EvaluationError \<and>
   length (flood_alerts (one_reading 50 (Some 0))) = 0 \<and>
   length (flood_alerts (snd (evaluate (only_fails SelectActive) 40 (one_reading 50 (Some 0))))) = 1"
  by code_simp

lemma POST_evaluate_status: "http_status (fst (POST_evaluate fails now s)) = 200"
proof -
  have "http_status (respond out) = 200" for out
    by (cases out rule: respond.cases) simp_all
  then show ?thesis by (simp add: POST_evaluate_def split: prod.splits)
qed

lemma POST_evaluate_error:
  "fst (evaluate fails now s) = EvaluationError \<Longrightarrow>
     fst (POST_evaluate fails now s) =
       \<lparr>http_status = 200, body_success = False,
        body_message = ''Error evaluating flood alert.''\<rparr>"
  by (auto simp: POST_evaluate_def split: prod.splits)

text \<open>
  C8, at an unreachable store: every statement throws, the first of them the fetch of the
  latest reading. The handler's \<open>catch\<close> answers \<open>success: false\<close> without a status, so
  the response goes out with status 200, where the claim asks for a 5xx one. (By
  \<open>POST_evaluate_status\<close> and \<open>POST_evaluate_error\<close> the same holds whichever statement
  throws.)
\<close>

theorem unreachable_store_status:
  "POST_evaluate all_fail 40 (one_reading 50 None) =
     (\<lparr>http_status = 200, body_success = False,
       body_message = ''Error evaluating flood alert.''\<rparr>, one_reading 50 None)"
  by (simp add: POST_evaluate_def evaluate_def all_fail_def)

section \<open>The cap on active alerts\<close>

lemma foldr_max_ge: "x \<in> set ids \<Longrightarrow> x \<le> foldr max ids (0::nat)"
  by (induction ids) (auto simp: max_def)

lemma next_id_fresh: "next_id ids \<notin> set ids"
  using foldr_max_ge [of "next_id ids" ids] by (auto simp: next_id_def)

lemma filter_active_demote:
  "filter is_active (demote_except keep as) =
     filter (\<lambda>a. is_active a \<and> alert_id a \<in> set keep) as"
  by (induction as) (auto simp: demote_except_def is_active_def)

lemma demote_rows:
  "map (\<lambda>a. a\<lparr>status := Past\<rparr>) (demote_except keep as) = map (\<lambda>a. a\<lparr>status := Past\<rparr>) as"
  by (simp add: demote_except_def)

lemma demote_active_subset:
  "a \<in> set (demote_except keep as) \<Longrightarrow> is_active a \<Longrightarrow> a \<in> set as"
  by (auto simp: demote_except_def is_active_def split: if_splits)

lemma sorted_take_drop:
  assumes "sorted (map f xs)" "x \<in> set (take n xs)" "y \<in> set (drop n xs)"
  shows "f x \<le> f y"
proof -
  have "sorted (map f (take n xs) @ map f (drop n xs))"
    using assms(1) by (simp flip: map_append)
  then show ?thesis using assms(2,3) by (auto simp: sorted_append)
qed

lemma set_select_active: "set (select_active as) = {a \<in> set as. is_active a}"
  by (auto simp: select_active_def)

lemma sorted_select_active: "sorted (map (\<lambda>a. - created_at a) (select_active as))"
  by (simp add: select_active_def)

lemma distinct_select_active:
  assumes "distinct (map alert_id as)"
  shows "distinct (map alert_id (select_active as))"
proof -
  have "distinct (map alert_id (filter is_active as))"
    using assms by (rule distinct_map_filter)
  then have "distinct (filter is_active as)" "inj_on alert_id (set (filter is_active as))"
    by (simp_all only: distinct_map)
  then show ?thesis by (simp add: select_active_def distinct_map)
qed

lemma demote_count:
  assumes d: "distinct (map alert_id pre)" and len: "2 < length (select_active pre)"
  shows "length (filter is_active
           (demote_except (map alert_id (take 2 (select_active pre))) pre)) = 2"
proof -
  let ?L = "select_active pre"
  let ?keep = "map alert_id (take 2 ?L)"
  let ?F = "filter (\<lambda>a. is_active a \<and> alert_id a \<in> set ?keep) pre"
  have dF: "distinct (map alert_id ?F)" using d by (rule distinct_map_filter)
  have "distinct (take 2 (map alert_id ?L))"
    using distinct_select_active [OF d] by (rule distinct_take)
  then have dk: "distinct ?keep" by (simp add: take_map)
  have sub: "set (take 2 ?L) \<subseteq> {a \<in> set pre. is_active a}"
    using set_take_subset [of 2 ?L] by (simp add: set_select_active)
  have "set (map alert_id ?F) = set ?keep"
  proof
    show "set (map alert_id ?F) \<subseteq> set ?keep" by auto
    show "set ?keep \<subseteq> set (map alert_id ?F)"
    proof
      fix x
      assume "x \<in> set ?keep"
      then obtain a where a: "a \<in> set (take 2 ?L)" "x = alert_id a" by auto
      then have "a \<in> set pre" "is_active a" using sub by auto
      moreover have "alert_id a \<in> set ?keep" using a(1) by simp
      ultimately have "a \<in> set ?F" by simp
      then show "x \<in> set (map alert_id ?F)" using a(2) by (simp del: set_filter)
    qed
  qed
  then have "card (set (map alert_id ?F)) = card (set ?keep)" by simp
  then have "length (map alert_id ?F) = length ?keep"
    using distinct_card [OF dF] distinct_card [OF dk] by simp
  then have "length ?F = 2" using len by simp
  then show ?thesis by (simp only: filter_active_demote)
qed

lemma demote_keeps_recent:
  assumes d: "distinct (map alert_id pre)"
    and a: "a \<in> set (demote_except (map alert_id (take 2 (select_active pre))) pre)" "is_active a"
    and b: "b0 \<in> set pre" "is_active b0"
      "alert_id b0 \<notin> set (map alert_id (take 2 (select_active pre)))"
  shows "created_at b0 \<le> created_at a"
proof -
  let ?L = "select_active pre"
  have inj: "inj_on alert_id (set pre)" using d by (simp add: distinct_map)
  have a_pre: "a \<in> set pre" and a_keep: "alert_id a \<in> alert_id ` set (take 2 ?L)"
    using a by (auto simp: demote_except_def is_active_def split: if_splits)
  from a_keep obtain a1 where a1: "a1 \<in> set (take 2 ?L)" "alert_id a1 = alert_id a" by auto
  have "a1 \<in> set ?L" using a1(1) by (rule in_set_takeD)
  then have "a1 \<in> set pre" by (simp add: set_select_active)
  then have "a1 = a" using inj a_pre a1(2) by (auto dest: inj_onD)
  then have a_take: "a \<in> set (take 2 ?L)" using a1(1) by simp
  have "b0 \<in> set ?L" using b by (simp add: set_select_active)
  moreover have "b0 \<notin> set (take 2 ?L)" using b(3) by auto
  ultimately have "b0 \<in> set (drop 2 ?L)"
    using set_append [of "take 2 ?L" "drop 2 ?L"] by auto
  then have "- created_at a \<le> - created_at b0"
    using sorted_take_drop [OF sorted_select_active a_take] by blast
  then show ?thesis by simp
qed

lemma evaluate_recorded_cases:
  assumes "evaluate fails now s = (AlertRecorded evicted, s')"
  obtains r where
    "latest_reading (sensor_readings s) = Some r"
    "distance r \<le> to_double 76.2"
    "evicted \<longleftrightarrow> 2 < length (select_active (flood_alerts s @
        [engine_alert (next_id (map alert_id (flood_alerts s))) (classify (distance r)) r now]))"
    "flood_alerts s' =
       (if evicted
        then demote_except (map alert_id (take 2 (select_active (flood_alerts s @
                 [engine_alert (next_id (map alert_id (flood_alerts s)))
                    (classify (distance r)) r now]))))
               (flood_alerts s @ [engine_alert (next_id (map alert_id (flood_alerts s)))
                                    (classify (distance r)) r now])
        else flood_alerts s @ [engine_alert (next_id (map alert_id (flood_alerts s)))
                                 (classify (distance r)) r now])"
proof (cases "latest_reading (sensor_readings s)")
  case None
  then show ?thesis using assms by (simp add: evaluate_def split: if_splits)
next
  case (Some r)
  show ?thesis
  proof (cases "to_double 76.2 < distance r")
    case True
    then show ?thesis
      using Some assms by (auto simp: evaluate_def Let_def split: option.splits if_splits)
  next
    case False
    then have d: "distance r \<le> to_double 76.2" by simp
    show ?thesis
      using Some False d assms that [of r]
      by (auto simp: evaluate_def alertLevel_of_classify Let_def split: if_splits)
  qed
qed

lemma evaluate_cap:
  assumes d: "distinct (map alert_id (flood_alerts s))"
    and ev: "evaluate fails now s = (AlertRecorded evicted, s')"
  shows "length (filter is_active (flood_alerts s')) =
           min 2 (Suc (length (filter is_active (flood_alerts s)))) \<and>
         (evicted \<longleftrightarrow> 2 \<le> length (filter is_active (flood_alerts s))) \<and>
         (\<forall>a\<in>set (flood_alerts s'). \<forall>b\<in>set (flood_alerts s').
            is_active a \<and> \<not> is_active b \<and>
            (\<forall>p\<in>set (flood_alerts s). alert_id p = alert_id b \<longrightarrow> is_active p)
            \<longrightarrow> created_at b \<le> created_at a) \<and>
         (\<exists>r. latest_reading (sensor_readings s) = Some r \<and>
            map (\<lambda>a. a\<lparr>status := Past\<rparr>) (flood_alerts s') =
              map (\<lambda>a. a\<lparr>status := Past\<rparr>)
                (flood_alerts s @ [engine_alert (next_id (map alert_id (flood_alerts s)))
                                     (classify (distance r)) r now]) \<and>
            (\<forall>a\<in>set (flood_alerts s'). is_active a \<longrightarrow>
               a \<in> set (flood_alerts s @ [engine_alert (next_id (map alert_id (flood_alerts s)))
                                            (classify (distance r)) r now])))"
proof -
  from ev obtain r where
    r: "latest_reading (sensor_readings s) = Some r"
    and ev': "evicted \<longleftrightarrow> 2 < length (select_active (flood_alerts s @
        [engine_alert (next_id (map alert_id (flood_alerts s))) (classify (distance r)) r now]))"
    and fa: "flood_alerts s' =
       (if evicted
        then demote_except (map alert_id (take 2 (select_active (flood_alerts s @
                 [engine_alert (next_id (map alert_id (flood_alerts s)))
                    (classify (distance r)) r now]))))
               (flood_alerts s @ [engine_alert (next_id (map alert_id (flood_alerts s)))
                                    (classify (distance r)) r now])
        else flood_alerts s @ [engine_alert (next_id (map alert_id (flood_alerts s)))
                                 (classify (distance r)) r now])"
    by (rule evaluate_recorded_cases)
  define new where
    "new = engine_alert (next_id (map alert_id (flood_alerts s))) (classify (distance r)) r now"
  define pre where "pre = flood_alerts s @ [new]"
  define keep where "keep = map alert_id (take 2 (select_active pre))"
  have new_act: "is_active new" unfolding new_def by (rule engine_alert_active)
  have "alert_id new \<notin> set (map alert_id (flood_alerts s))"
    using next_id_fresh [of "map alert_id (flood_alerts s)"] by (simp add: new_def engine_alert_def)
  then have dpre: "distinct (map alert_id pre)" using d by (simp add: pre_def)
  have ev'': "evicted \<longleftrightarrow> 2 < length (select_active pre)"
    using ev' by (simp add: pre_def new_def)
  have fa': "flood_alerts s' = (if evicted then demote_except keep pre else pre)"
    using fa by (simp add: pre_def new_def keep_def)
  have cnt_pre: "length (select_active pre) = Suc (length (filter is_active (flood_alerts s)))"
    using new_act by (simp add: length_select_active pre_def)
  have count: "length (filter is_active (flood_alerts s')) =
      min 2 (Suc (length (filter is_active (flood_alerts s))))"
  proof (cases evicted)
    case True
    then have "length (filter is_active (demote_except keep pre)) = 2"
      unfolding keep_def using demote_count [OF dpre] ev'' by simp
    then show ?thesis using True fa' ev'' cnt_pre by simp
  next
    case False
    then show ?thesis using fa' ev'' cnt_pre new_act by (simp add: pre_def)
  qed
  have evicted_iff: "evicted \<longleftrightarrow> 2 \<le> length (filter is_active (flood_alerts s))"
    using ev'' cnt_pre by auto
  have recent: "created_at b \<le> created_at a"
    if a: "a \<in> set (flood_alerts s')" "is_active a"
      and b: "b \<in> set (flood_alerts s')" "\<not> is_active b"
      and was: "\<forall>p\<in>set (flood_alerts s). alert_id p = alert_id b \<longrightarrow> is_active p"
    for a b
  proof -
    have not_old: "\<not> (b \<in> set pre)"
    proof
      assume "b \<in> set pre"
      then have "b \<in> set (flood_alerts s)" using b(2) new_act by (auto simp: pre_def)
      then show False using was b(2) by blast
    qed
    show ?thesis
    proof (cases evicted)
      case True
      then have bs: "b \<in> set (demote_except keep pre)" and as: "a \<in> set (demote_except keep pre)"
        using a b fa' by simp_all
      from bs not_old obtain b0 where b0: "b0 \<in> set pre" "is_active b0" "alert_id b0 \<notin> set keep"
          "b = b0\<lparr>status := Past\<rparr>"
        by (auto simp: demote_except_def split: if_splits)
      have "created_at b0 \<le> created_at a"
        using demote_keeps_recent [OF dpre] as a(2) b0(1,2,3) unfolding keep_def by blast
      then show ?thesis using b0(4) by simp
    next
      case False
      then show ?thesis using b(1) not_old fa' by simp
    qed
  qed
  have rows: "map (\<lambda>a. a\<lparr>status := Past\<rparr>) (flood_alerts s') = map (\<lambda>a. a\<lparr>status := Past\<rparr>) pre"
    using fa' by (simp add: demote_rows)
  have act: "a \<in> set pre" if "a \<in> set (flood_alerts s')" "is_active a" for a
    using that fa' demote_active_subset [of a keep pre] by (cases evicted) simp_all
  show ?thesis
    using count evicted_iff recent r rows act unfolding pre_def new_def by blast
qed

lemma evaluate_records:
  assumes "\<not> fails SelectLatestReading" "\<not> fails SelectDuplicate" "\<not> fails InsertAlert"
      "\<not> fails SelectActive" "\<not> fails UpdateDemote"
    and "latest_reading (sensor_readings s) = Some r" "distance r \<le> to_double 76.2"
    and "filter (is_duplicate (reading_time r) (classify (distance r))) (flood_alerts s) = []"
  shows "fst (evaluate fails now s) =
           AlertRecorded (2 \<le> length (filter is_active (flood_alerts s)))"
  using assms
  by (auto simp: evaluate_def alertLevel_of_classify Let_def length_select_active
      engine_alert_active)

text \<open>The hypothesis of \<open>evaluate_cap\<close>, distinct row ids, is kept by both handlers.\<close>

lemma map_alert_id_demote: "map alert_id (demote_except keep as) = map alert_id as"
  by (simp add: demote_except_def)

lemma map_alert_id_mark: "map alert_id (mark_all_past as) = map alert_id as"
  by (simp add: mark_all_past_def)

lemma evaluate_keeps_distinct:
  assumes "distinct (map alert_id (flood_alerts s))"
  shows "distinct (map alert_id (flood_alerts (snd (evaluate fails now s))))"
  using assms next_id_fresh [of "map alert_id (flood_alerts s)"]
  by (auto simp: evaluate_def Let_def map_alert_id_demote map_alert_id_mark engine_alert_def
      split: option.splits)

lemma ingest_alerts_cases:
  "flood_alerts (snd (POST_readings p fails now body s)) = flood_alerts s \<or>
   (\<exists>kvs st. body = Inr (JObject kvs) \<and> map_of (rev kvs) ''status'' = Some (JString st) \<and>
      toUpperCase p st \<in> {''WARNING'', ''DANGER'', ''CRITICAL''} \<and>
      flood_alerts (snd (POST_readings p fails now body s)) =
        flood_alerts s @ [ingest_alert p (next_id (map alert_id (flood_alerts s))) st now])"
proof (cases body)
  case (Inl msg)
  then show ?thesis by (simp add: POST_readings_def)
next
  case (Inr j)
  then show ?thesis
    by (cases j) (auto simp: POST_readings_def Let_def split: option.splits json.splits)
qed

lemma POST_readings_keeps_distinct:
  assumes "distinct (map alert_id (flood_alerts s))"
  shows "distinct (map alert_id (flood_alerts (snd (POST_readings p fails now body s))))"
  using assms next_id_fresh [of "map alert_id (flood_alerts s)"]
    ingest_alerts_cases [of p fails now body s]
  by (auto simp: ingest_alert_def)

lemma ingest_stored_alert:
  assumes "POST_readings p fails now (Inr (JObject kvs)) s = (Inr resp, s')"
    and "ir_http_status resp = 200"
    and "map_of (rev kvs) ''status'' = Some (JString st)"
    and "toUpperCase p st \<in> {''WARNING'', ''DANGER'', ''CRITICAL''}"
  shows "flood_alerts s' =
           flood_alerts s @ [ingest_alert p (next_id (map alert_id (flood_alerts s))) st now]"
  using assms
  by (auto simp: POST_readings_def Let_def server_error_response_def invalid_data_response_def
      split: option.splits json.splits if_splits)

text \<open>
  C1 (as amended). The bound of two active alerts is enforced by the evaluation engine, at
  the end of each run that records an alert and completes (a run on an adverse reading
  without duplicate in which no statement throws is such a run). After it, with \<open>n\<close>
  alerts active before, exactly \<open>min 2 (n + 1)\<close> are active; alerts are demoted exactly
  when 2 were already active; no alert the run demoted is newer (by \<open>created_at\<close>) than one
  it left active; and the table is the old one with the new alert appended, nothing but
  statuses changed, no past alert made active. The bound does not hold at every time:
  when the listing of active alerts or the demoting update throws after the insert, the
  new alert stays active and none is demoted; and the ingest handler enforces no bound,
  each reading it stores under an adverse tag adding one active alert.
\<close>

theorem active_cap:
  "(distinct (map alert_id (flood_alerts s)) \<and>
    evaluate fails now s = (AlertRecorded evicted, s') \<longrightarrow>
      length (filter is_active (flood_alerts s')) =
        min 2 (Suc (length (filter is_active (flood_alerts s)))) \<and>
      (evicted \<longleftrightarrow> 2 \<le> length (filter is_active (flood_alerts s))) \<and>
      (\<forall>a\<in>set (flood_alerts s'). \<forall>b\<in>set (flood_alerts s').
          is_active a \<and> \<not> is_active b \<and>
          (\<forall>p\<in>set (flood_alerts s). alert_id p = alert_id b \<longrightarrow> is_active p)
          \<longrightarrow> created_at b \<le> created_at a) \<and>
      (\<exists>r. latest_reading (sensor_readings s) = Some r \<and>
          map (\<lambda>a. a\<lparr>status := Past\<rparr>) (flood_alerts s') =
            map (\<lambda>a. a\<lparr>status := Past\<rparr>)
              (flood_alerts s @ [engine_alert (next_id (map alert_id (flood_alerts s)))
                                   (classify (distance r)) r now]) \<and>
          (\<forall>a\<in>set (flood_alerts s'). is_active a \<longrightarrow>
             a \<in> set (flood_alerts s @ [engine_alert (next_id (map alert_id (flood_alerts s)))
                                          (classify (distance r)) r now])))) \<and>
   (\<not> fails SelectLatestReading \<and> \<not> fails SelectDuplicate \<and> \<not> fails InsertAlert \<and>
    latest_reading (sensor_readings s) = Some r' \<and> distance r' \<le> to_double 76.2 \<and>
    filter (is_duplicate (reading_time r') (classify (distance r'))) (flood_alerts s) = [] \<longrightarrow>
      (\<not> fails SelectActive \<and> \<not> fails UpdateDemote \<longrightarrow>
         fst (evaluate fails now s) =
           AlertRecorded (2 \<le> length (filter is_active (flood_alerts s)))) \<and>
      (fails SelectActive \<or>
       (2 \<le> length (filter is_active (flood_alerts s)) \<and> fails UpdateDemote) \<longrightarrow>
         fst (evaluate fails now s) = EvaluationError \<and>
         length (filter is_active (flood_alerts (snd (evaluate fails now s)))) =
           Suc (length (filter is_active (flood_alerts s))))) \<and>
   (POST_readings p fails' now' (Inr (JObject kvs)) s = (Inr resp, s'') \<and>
    ir_http_status resp = 200 \<and>
    map_of (rev kvs) ''status'' = Some (JString st) \<and>
    toUpperCase p st \<in> {''WARNING'', ''DANGER'', ''CRITICAL''} \<longrightarrow>
      length (filter is_active (flood_alerts s'')) =
        Suc (length (filter is_active (flood_alerts s))))"
proof -
  have engine: "length (filter is_active (flood_alerts s')) =
        min 2 (Suc (length (filter is_active (flood_alerts s)))) \<and>
      (evicted \<longleftrightarrow> 2 \<le> length (filter is_active (flood_alerts s))) \<and>
      (\<forall>a\<in>set (flood_alerts s'). \<forall>b\<in>set (flood_alerts s').
          is_active a \<and> \<not> is_active b \<and>
          (\<forall>p\<in>set (flood_alerts s). alert_id p = alert_id b \<longrightarrow> is_active p)
          \<longrightarrow> created_at b \<le> created_at a) \<and>
      (\<exists>r. latest_reading (sensor_readings s) = Some r \<and>
          map (\<lambda>a. a\<lparr>status := Past\<rparr>) (flood_alerts s') =
            map (\<lambda>a. a\<lparr>status := Past\<rparr>)
              (flood_alerts s @ [engine_alert (next_id (map alert_id (flood_alerts s)))
                                   (classify (distance r)) r now]) \<and>
          (\<forall>a\<in>set (flood_alerts s'). is_active a \<longrightarrow>
             a \<in> set (flood_alerts s @ [engine_alert (next_id (map alert_id (flood_alerts s)))
                                          (classify (distance r)) r now])))"
    if "distinct (map alert_id (flood_alerts s)) \<and>
        evaluate fails now s = (AlertRecorded evicted, s')"
    using that evaluate_cap [of s fails now evicted s'] by blast
  have records: "fst (evaluate fails now s) =
           AlertRecorded (2 \<le> length (filter is_active (flood_alerts s)))"
    if "\<not> fails SelectLatestReading \<and> \<not> fails SelectDuplicate \<and> \<not> fails InsertAlert \<and>
        latest_reading (sensor_readings s) = Some r' \<and> distance r' \<le> to_double 76.2 \<and>
        filter (is_duplicate (reading_time r') (classify (distance r'))) (flood_alerts s) = []"
      and "\<not> fails SelectActive \<and> \<not> fails UpdateDemote"
    using that evaluate_records [of fails s r' now] by blast
  have thrown: "fst (evaluate fails now s) = EvaluationError \<and>
         length (filter is_active (flood_alerts (snd (evaluate fails now s)))) =
           Suc (length (filter is_active (flood_alerts s)))"
    if "\<not> fails SelectLatestReading \<and> \<not> fails SelectDuplicate \<and> \<not> fails InsertAlert \<and>
        latest_reading (sensor_readings s) = Some r' \<and> distance r' \<le> to_double 76.2 \<and>
        filter (is_duplicate (reading_time r') (classify (distance r'))) (flood_alerts s) = []"
      and "fails SelectActive \<or>
       (2 \<le> length (filter is_active (flood_alerts s)) \<and> fails UpdateDemote)"
  proof -
    have "evaluate fails now s =
           (EvaluationError,
            s\<lparr>flood_alerts := flood_alerts s @
                 [engine_alert (next_id (map alert_id (flood_alerts s)))
                    (classify (distance r')) r' now],
              firstSafeDetectedAt := None\<rparr>)"
      using that evaluate_cap_fails [of fails s r' now] by blast
    then show ?thesis by (simp add: engine_alert_active)
  qed
  have ingest: "length (filter is_active (flood_alerts s'')) =
        Suc (length (filter is_active (flood_alerts s)))"
    if "POST_readings p fails' now' (Inr (JObject kvs)) s = (Inr resp, s'') \<and>
        ir_http_status resp = 200 \<and>
        map_of (rev kvs) ''status'' = Some (JString st) \<and>
        toUpperCase p st \<in> {''WARNING'', ''DANGER'', ''CRITICAL''}"
  proof -
    have "flood_alerts s'' =
        flood_alerts s @ [ingest_alert p (next_id (map alert_id (flood_alerts s))) st now']"
      using that ingest_stored_alert [of p fails' now' kvs s resp s'' st] by blast
    then show ?thesis by (simp add: ingest_alert_def is_active_def)
  qed
  show ?thesis using engine records thrown ingest by blast
qed

text \<open>
  Two alerts are active (created at 10 and 20) and the engine records a third at time 40:
  the oldest one is demoted, the two most recent are active.
\<close>

theorem active_cap_witness:
  "distinct (map alert_id (flood_alerts (two_active 50 None))) \<and>
   fst (evaluate no_failure 40 (two_active 50 None)) = AlertRecorded True \<and>
   map status (flood_alerts (snd (evaluate no_failure 40 (two_active 50 None)))) =
     [Past, Active, Active] \<and>
   length (filter is_active (flood_alerts (snd (evaluate no_failure 40 (two_active 50 None))))) =
     min 2 (Suc (length (filter is_active (flood_alerts (two_active 50 None)))))"
proof -
  have h1: "distinct (map alert_id (flood_alerts (two_active 50 None)))"
    by (simp add: two_active_def)
  have h2: "fst (evaluate no_failure 40 (two_active 50 None)) = AlertRecorded True"
    by code_simp
  have h3: "map status (flood_alerts (snd (evaluate no_failure 40 (two_active 50 None)))) =
     [Past, Active, Active]"
    by code_simp
  have h4: "evaluate no_failure 40 (two_active 50 None) =
      (AlertRecorded True, snd (evaluate no_failure 40 (two_active 50 None)))"
    using h2 by (simp add: prod_eq_iff)
  show ?thesis
    using active_cap [of "two_active 50 None" no_failure 40 True
        "snd (evaluate no_failure 40 (two_active 50 None))"] h1 h2 h3 h4
    by blast
qed

text \<open>
  C1 as stated fails. On the ingest path: three readings tagged WARNING, posted to the
  empty store, leave three active alerts. In the engine: with two alerts active and the
  demoting update throwing, the inserted alert makes three.
\<close>

theorem active_cap_counterexample:
  "length (filter is_active (flood_alerts
     (snd (POST_readings ascii_platform no_failure 3 (reading_body 70 30 ''WARNING'')
       (snd (POST_readings ascii_platform no_failure 2 (reading_body 70 30 ''WARNING'')
         (snd (POST_readings ascii_platform no_failure 1 (reading_body 70 30 ''WARNING'')
            empty_system)))))))) = 3 \<and>
   length (filter is_active (flood_alerts
     (snd (evaluate (only_fails UpdateDemote) 40 (two_active 50 None))))) = 3"
  by code_simp

section \<open>Duplicate suppression\<close>

lemma evaluate_adverse_duplicate:
  assumes "\<not> fails SelectLatestReading" "\<not> fails SelectDuplicate"
    and "latest_reading (sensor_readings s) = Some r" "distance r \<le> to_double 76.2"
    and "filter (is_duplicate (reading_time r) (classify (distance r))) (flood_alerts s) \<noteq> []"
  shows "evaluate fails now s = (DuplicateSkipped, s\<lparr>firstSafeDetectedAt := None\<rparr>)"
  using assms by (simp add: evaluate_def alertLevel_of_classify)

lemma evaluate_adverse_fresh:
  assumes "\<forall>q. \<not> fails q"
    and "latest_reading (sensor_readings s) = Some r" "distance r \<le> to_double 76.2"
    and "filter (is_duplicate (reading_time r) (classify (distance r))) (flood_alerts s) = []"
  shows "firstSafeDetectedAt (snd (evaluate fails now s)) = None \<and>
         sensor_readings (snd (evaluate fails now s)) = sensor_readings s \<and>
         (flood_alerts (snd (evaluate fails now s)) =
            flood_alerts s @ [engine_alert (next_id (map alert_id (flood_alerts s)))
                                (classify (distance r)) r now] \<or>
          flood_alerts (snd (evaluate fails now s)) =
            demote_except
              (map alert_id (take 2 (select_active
                 (flood_alerts s @ [engine_alert (next_id (map alert_id (flood_alerts s)))
                                      (classify (distance r)) r now]))))
              (flood_alerts s @ [engine_alert (next_id (map alert_id (flood_alerts s)))
                                   (classify (distance r)) r now]))"
  using assms by (simp add: evaluate_def alertLevel_of_classify Let_def)

lemma filter_duplicate_demote:
  "length (filter (is_duplicate rt lvl) (demote_except keep as)) =
     length (filter (is_duplicate rt lvl) as)"
  by (induction as) (auto simp: demote_except_def is_duplicate_def)

lemma engine_alert_is_duplicate:
  "is_duplicate (reading_time r) lvl (engine_alert i lvl r now)"
  by (simp add: is_duplicate_def engine_alert_def)

text \<open>
  C4. On an adverse reading the engine looks for an alert with the reading's
  \<open>reading_time\<close> and the level it computed, whatever that alert's distance: if there is
  one, the run answers DuplicateSkipped and leaves the alert table as it is. Hence, of two
  runs in a row on the same adverse reading (no statement failing), the second answers
  DuplicateSkipped and changes nothing; if no such alert existed before the first run,
  exactly one exists after the two, the one row the first run added.
\<close>

theorem duplicate_skipped:
  assumes "\<not> fails SelectLatestReading" "\<not> fails SelectDuplicate"
    and "latest_reading (sensor_readings s) = Some r" "distance r \<le> to_double 76.2"
  shows
    "((\<exists>a\<in>set (flood_alerts s).
         alert_reading_time a = Some (reading_time r) \<and> alert_level a = classify (distance r))
       \<longrightarrow> evaluate fails now s = (DuplicateSkipped, s\<lparr>firstSafeDetectedAt := None\<rparr>)) \<and>
     ((\<forall>q. \<not> fails q) \<and> \<not> fails' SelectLatestReading \<and> \<not> fails' SelectDuplicate \<longrightarrow>
        evaluate fails' now' (snd (evaluate fails now s)) =
          (DuplicateSkipped, snd (evaluate fails now s)) \<and>
        (if \<exists>a\<in>set (flood_alerts s).
              alert_reading_time a = Some (reading_time r) \<and> alert_level a = classify (distance r)
         then flood_alerts (snd (evaluate fails now s)) = flood_alerts s
         else length (flood_alerts (snd (evaluate fails now s))) = Suc (length (flood_alerts s)) \<and>
              length (filter (is_duplicate (reading_time r) (classify (distance r)))
                        (flood_alerts (snd (evaluate fails now s)))) = 1))"
proof -
  let ?dup = "is_duplicate (reading_time r) (classify (distance r))"
  let ?s1 = "snd (evaluate fails now s)"
  have dup_iff: "(\<exists>a\<in>set (flood_alerts s).
         alert_reading_time a = Some (reading_time r) \<and> alert_level a = classify (distance r))
       \<longleftrightarrow> filter ?dup (flood_alerts s) \<noteq> []"
    by (auto simp: filter_empty_conv is_duplicate_def)
  have skip: "evaluate fails now s = (DuplicateSkipped, s\<lparr>firstSafeDetectedAt := None\<rparr>)"
    if "filter ?dup (flood_alerts s) \<noteq> []"
    using evaluate_adverse_duplicate [of fails s r now] assms that by simp
  have twice: "evaluate fails' now' ?s1 = (DuplicateSkipped, ?s1) \<and>
        (if filter ?dup (flood_alerts s) \<noteq> []
         then flood_alerts ?s1 = flood_alerts s
         else length (flood_alerts ?s1) = Suc (length (flood_alerts s)) \<and>
              length (filter ?dup (flood_alerts ?s1)) = 1)"
    if nf: "\<forall>q. \<not> fails q" and nf': "\<not> fails' SelectLatestReading" "\<not> fails' SelectDuplicate"
  proof (cases "filter ?dup (flood_alerts s) \<noteq> []")
    case True
    then have e: "evaluate fails now s = (DuplicateSkipped, s\<lparr>firstSafeDetectedAt := None\<rparr>)"
      by (rule skip)
    have "evaluate fails' now' (s\<lparr>firstSafeDetectedAt := None\<rparr>) =
        (DuplicateSkipped, s\<lparr>firstSafeDetectedAt := None\<rparr>)"
      using evaluate_adverse_duplicate [of fails' "s\<lparr>firstSafeDetectedAt := None\<rparr>" r now']
        nf' assms(3,4) True by simp
    then show ?thesis using e True by simp
  next
    case False
    then have empty: "filter ?dup (flood_alerts s) = []" by simp
    define new where
      "new = engine_alert (next_id (map alert_id (flood_alerts s))) (classify (distance r)) r now"
    have new_dup: "?dup new" unfolding new_def by (rule engine_alert_is_duplicate)
    from evaluate_adverse_fresh [of fails s r now] nf assms(3,4) empty
    obtain keep where
      fs: "firstSafeDetectedAt ?s1 = None" and rd: "sensor_readings ?s1 = sensor_readings s"
      and fa: "flood_alerts ?s1 = flood_alerts s @ [new] \<or>
               flood_alerts ?s1 = demote_except keep (flood_alerts s @ [new])"
      unfolding new_def by blast
    have len: "length (flood_alerts ?s1) = Suc (length (flood_alerts s))"
      using fa by (auto simp: demote_except_def)
    have "length (filter ?dup (flood_alerts s @ [new])) = 1"
      using empty new_dup by simp
    then have one: "length (filter ?dup (flood_alerts ?s1)) = 1"
      using fa by (auto simp: filter_duplicate_demote)
    then have ne: "filter ?dup (flood_alerts ?s1) \<noteq> []" by auto
    have "evaluate fails' now' ?s1 = (DuplicateSkipped, ?s1\<lparr>firstSafeDetectedAt := None\<rparr>)"
      using evaluate_adverse_duplicate [of fails' ?s1 r now'] nf' assms(3,4) rd ne by simp
    moreover have "?s1\<lparr>firstSafeDetectedAt := None\<rparr> = ?s1" using fs by simp
    ultimately show ?thesis using False len one by simp
  qed
  show ?thesis using skip twice unfolding dup_iff by blast
qed

text \<open>
  One reading at 50 cm and no alert: the first run records a Danger alert, the second
  skips it, and one alert is stored.
\<close>

theorem duplicate_skipped_witness:
  "\<not> no_failure SelectLatestReading \<and> \<not> no_failure SelectDuplicate \<and>
   evaluate no_failure 41 (snd (evaluate no_failure 40 (one_reading 50 None))) =
     (DuplicateSkipped, snd (evaluate no_failure 40 (one_reading 50 None))) \<and>
   length (flood_alerts (snd (evaluate no_failure 40 (one_reading 50 None)))) = 1"
proof -
  have nf: "\<forall>q. \<not> no_failure q" by (simp add: no_failure_def)
  have h1: "\<not> no_failure SelectLatestReading" and h2: "\<not> no_failure SelectDuplicate"
    using nf by simp_all
  have h3: "latest_reading (sensor_readings (one_reading 50 None)) =
      Some \<lparr>reading_id = 1, distance = 50, flood_level = 100 - 50,
            status_tag = ''SENSOR'', reading_time = 0\<rparr>"
    by (simp add: one_reading_def)
  have h4: "distance \<lparr>reading_id = 1, distance = 50, flood_level = 100 - 50,
            status_tag = ''SENSOR'', reading_time = 0\<rparr> \<le> to_double 76.2"
    using safe_test_examples by simp
  have none: "\<not> (\<exists>a\<in>set (flood_alerts (one_reading 50 None)).
      alert_reading_time a = Some (reading_time \<lparr>reading_id = 1, distance = 50,
          flood_level = 100 - 50, status_tag = ''SENSOR'', reading_time = 0\<rparr>) \<and>
      alert_level a = classify (distance \<lparr>reading_id = 1, distance = 50,
          flood_level = 100 - 50, status_tag = ''SENSOR'', reading_time = 0\<rparr>))"
    by (simp add: one_reading_def)
  have len0: "length (flood_alerts (one_reading 50 None)) = 0"
    by (simp add: one_reading_def)
  show ?thesis
    using duplicate_skipped [of no_failure "one_reading 50 None" _ 40 no_failure 41, OF h1 h2 h3 h4]
      nf none len0
    by simp
qed

section \<open>What the two handlers write into an alert\<close>

lemma alertLevel_of_range:
  "alertLevel_of x = Some lvl \<Longrightarrow> lvl \<in> {''Warning'', ''Danger'', ''Critical''}"
  by (auto simp: alertLevel_of_def split: if_splits)

lemma drop_length_demote_snoc:
  "drop (length as) (demote_except keep (as @ [a])) =
     [if is_active a \<and> alert_id a \<notin> set keep then a\<lparr>status := Past\<rparr> else a]"
  by (simp add: demote_except_def)

lemma engine_inserted_cases:
  "inserted_alerts s (snd (evaluate fails now s)) = [] \<or>
   (\<exists>r lvl st. latest_reading (sensor_readings s) = Some r \<and>
      alertLevel_of (toFixed2 (distance r)) = Some lvl \<and>
      inserted_alerts s (snd (evaluate fails now s)) =
        [(engine_alert (next_id (map alert_id (flood_alerts s))) lvl r now)\<lparr>status := st\<rparr>])"
proof -
  have self: "a = a\<lparr>status := Active\<rparr>" if "status a = Active" for a :: alert
    using that by simp
  have act: "status (engine_alert i lvl r now) = Active" for i lvl r
    by (simp add: engine_alert_def)
  show ?thesis
    unfolding inserted_alerts_def evaluate_def Let_def
    by (auto simp: mark_all_past_def drop_length_demote_snoc split: option.splits
        intro: self [OF act])
qed

lemma ingest_inserted_cases:
  "inserted_alerts s (snd (POST_readings p fails now body s)) = [] \<or>
   (\<exists>kvs st. body = Inr (JObject kvs) \<and> map_of (rev kvs) ''status'' = Some (JString st) \<and>
      toUpperCase p st \<in> {''WARNING'', ''DANGER'', ''CRITICAL''} \<and>
      inserted_alerts s (snd (POST_readings p fails now body s)) =
        [ingest_alert p (next_id (map alert_id (flood_alerts s))) st now])"
  using ingest_alerts_cases [of p fails now body s]
  by (auto simp: inserted_alerts_def)

lemma ingest_inserted_alert:
  assumes "a \<in> set (inserted_alerts s (snd (POST_readings p fails now body s)))"
  obtains kvs st where "body = Inr (JObject kvs)"
    "map_of (rev kvs) ''status'' = Some (JString st)"
    "toUpperCase p st \<in> {''WARNING'', ''DANGER'', ''CRITICAL''}"
    "a = ingest_alert p (next_id (map alert_id (flood_alerts s))) st now"
proof -
  have "\<exists>kvs st. body = Inr (JObject kvs) \<and>
      map_of (rev kvs) ''status'' = Some (JString st) \<and>
      toUpperCase p st \<in> {''WARNING'', ''DANGER'', ''CRITICAL''} \<and>
      a = ingest_alert p (next_id (map alert_id (flood_alerts s))) st now"
    using assms ingest_inserted_cases [of s p fails now body] by fastforce
  then show ?thesis using that by blast
qed

text \<open>
  C7 (as amended). Every alert the evaluation engine inserts has one of the levels
  "Warning", "Danger", "Critical" and the message "<level> flood level detected.". The
  three fixed templates of the specification are those of the ingest handler, chosen by
  the upper-cased status tag of the request: "Warning: Rising Water Level." for WARNING,
  "Danger: High Water Level!" for DANGER, "Critical Flood Level! Immediate action
  required." for CRITICAL; the level stored with them is the lower-cased tag.
\<close>

theorem alert_messages:
  "(\<forall>a\<in>set (inserted_alerts s (snd (evaluate fails now s))).
      alert_level a \<in> {''Warning'', ''Danger'', ''Critical''} \<and>
      message a = alert_level a @ '' flood level detected.'') \<and>
   (\<forall>a\<in>set (inserted_alerts s (snd (POST_readings p fails' now' body s))).
      \<exists>kvs st. body = Inr (JObject kvs) \<and> map_of (rev kvs) ''status'' = Some (JString st) \<and>
        alert_level a = toLowerCase p st \<and>
        (toUpperCase p st, message a) \<in>
          {(''WARNING'', ''Warning: Rising Water Level.''),
           (''DANGER'', ''Danger: High Water Level!''),
           (''CRITICAL'', ''Critical Flood Level! Immediate action required.'')})"
proof (rule conjI)
  show "\<forall>a\<in>set (inserted_alerts s (snd (evaluate fails now s))).
      alert_level a \<in> {''Warning'', ''Danger'', ''Critical''} \<and>
      message a = alert_level a @ '' flood level detected.''"
  proof
    fix a
    assume "a \<in> set (inserted_alerts s (snd (evaluate fails now s)))"
    then obtain r lvl st where lvl: "alertLevel_of (toFixed2 (distance r)) = Some lvl"
        and "a = (engine_alert (next_id (map alert_id (flood_alerts s))) lvl r now)\<lparr>status := st\<rparr>"
      using engine_inserted_cases [of s fails now] by auto
    then have "alert_level a = lvl" "message a = lvl @ '' flood level detected.''"
      by (simp_all add: engine_alert_def)
    then show "alert_level a \<in> {''Warning'', ''Danger'', ''Critical''} \<and>
      message a = alert_level a @ '' flood level detected.''"
      using alertLevel_of_range [OF lvl] by simp
  qed
next
  show "\<forall>a\<in>set (inserted_alerts s (snd (POST_readings p fails' now' body s))).
      \<exists>kvs st. body = Inr (JObject kvs) \<and> map_of (rev kvs) ''status'' = Some (JString st) \<and>
        alert_level a = toLowerCase p st \<and>
        (toUpperCase p st, message a) \<in>
          {(''WARNING'', ''Warning: Rising Water Level.''),
           (''DANGER'', ''Danger: High Water Level!''),
           (''CRITICAL'', ''Critical Flood Level! Immediate action required.'')}"
  proof
    fix a
    assume "a \<in> set (inserted_alerts s (snd (POST_readings p fails' now' body s)))"
    then obtain kvs st where body: "body = Inr (JObject kvs)"
        "map_of (rev kvs) ''status'' = Some (JString st)"
        and st: "toUpperCase p st \<in> {''WARNING'', ''DANGER'', ''CRITICAL''}"
        and a: "a = ingest_alert p (next_id (map alert_id (flood_alerts s))) st now'"
      by (rule ingest_inserted_alert)
    have "alert_level a = toLowerCase p st" "message a = ingest_message p st"
      using a by (simp_all add: ingest_alert_def)
    moreover have "(toUpperCase p st, ingest_message p st) \<in>
          {(''WARNING'', ''Warning: Rising Water Level.''),
           (''DANGER'', ''Danger: High Water Level!''),
           (''CRITICAL'', ''Critical Flood Level! Immediate action required.'')}"
      using st by (auto simp: ingest_message_def)
    ultimately show "\<exists>kvs st. body = Inr (JObject kvs) \<and>
        map_of (rev kvs) ''status'' = Some (JString st) \<and>
        alert_level a = toLowerCase p st \<and>
        (toUpperCase p st, message a) \<in>
          {(''WARNING'', ''Warning: Rising Water Level.''),
           (''DANGER'', ''Danger: High Water Level!''),
           (''CRITICAL'', ''Critical Flood Level! Immediate action required.'')}"
      using body by auto
  qed
qed

text \<open>
  A reading at 25 cm evaluated on a store without alerts, and the same store receiving a
  reading tagged "Critical": one alert each, with the two different messages.
\<close>

theorem alert_messages_witness:
  "map alert_level (inserted_alerts (one_reading 25 None)
       (snd (evaluate no_failure 40 (one_reading 25 None)))) = [''Critical''] \<and>
   map message (inserted_alerts (one_reading 25 None)
       (snd (evaluate no_failure 40 (one_reading 25 None)))) = [''Critical flood level detected.''] \<and>
   map alert_level (inserted_alerts (one_reading 25 None)
       (snd (POST_readings ascii_platform no_failure 40 (reading_body 25 75 ''Critical'')
              (one_reading 25 None)))) = [''critical''] \<and>
   map message (inserted_alerts (one_reading 25 None)
       (snd (POST_readings ascii_platform no_failure 40 (reading_body 25 75 ''Critical'')
              (one_reading 25 None)))) =
     [''Critical Flood Level! Immediate action required.'']"
proof -
  let ?e = "inserted_alerts (one_reading 25 None) (snd (evaluate no_failure 40 (one_reading 25 None)))"
  let ?i = "inserted_alerts (one_reading 25 None)
       (snd (POST_readings ascii_platform no_failure 40 (reading_body 25 75 ''Critical'')
              (one_reading 25 None)))"
  have e1: "map alert_level ?e = [''Critical'']" by code_simp
  have i1: "map alert_level ?i = [''critical'']" by code_simp
  have up: "toUpperCase ascii_platform ''Critical'' = ''CRITICAL''" by code_simp
  from e1 obtain a where a: "?e = [a]" "alert_level a = ''Critical''" by auto
  from i1 obtain b where b: "?i = [b]" "alert_level b = ''critical''" by auto
  have "message a = alert_level a @ '' flood level detected.''"
    using alert_messages [of "one_reading 25 None" no_failure 40] a(1) by simp
  moreover have "message b = ''Critical Flood Level! Immediate action required.''"
    using alert_messages [of "one_reading 25 None" _ _ ascii_platform no_failure 40
        "reading_body 25 75 ''Critical''"] b(1) up
    by (auto simp: reading_body_def)
  ultimately show ?thesis using a b e1 i1 by simp
qed

text \<open>
  C7 as stated fails: the alert the engine inserts for a reading at 25 cm is Critical and
  its message is not the Critical template.
\<close>

theorem alert_messages_counterexample:
  "map alert_level (inserted_alerts (one_reading 25 None)
       (snd (evaluate no_failure 40 (one_reading 25 None)))) = [''Critical''] \<and>
   map message (inserted_alerts (one_reading 25 None)
       (snd (evaluate no_failure 40 (one_reading 25 None)))) \<noteq>
     [''Critical Flood Level! Immediate action required.'']"
  by code_simp

text \<open>
  C10. An alert inserted by the ingest handler has as level the lower-cased status tag of
  the request and no reading time, distance or flood level; an alert inserted by the engine
  has one of the capitalised levels and the reading time of the latest reading. So the
  engine's duplicate check matches no ingest alert, whatever reading time and level it
  looks for; and since lower-casing leaves no capital letter A to Z in a string, the level
  of an ingest alert is none of the engine's levels.
\<close>

theorem ingest_alerts_differ:
  "(\<forall>a\<in>set (inserted_alerts s (snd (POST_readings p fails now body s))).
      (\<exists>kvs st. body = Inr (JObject kvs) \<and> map_of (rev kvs) ''status'' = Some (JString st) \<and>
         toUpperCase p st \<in> {''WARNING'', ''DANGER'', ''CRITICAL''} \<and>
         alert_level a = toLowerCase p st) \<and>
      alert_reading_time a = None \<and> source_distance a = None \<and> source_flood_level a = None \<and>
      (\<forall>rt lvl. \<not> is_duplicate rt lvl a) \<and>
      ((\<forall>st. \<forall>c\<in>set (toLowerCase p st). c \<notin> set ''ABCDEFGHIJKLMNOPQRSTUVWXYZ'') \<longrightarrow>
         alert_level a \<notin> {''Warning'', ''Danger'', ''Critical''})) \<and>
   (\<forall>a\<in>set (inserted_alerts s (snd (evaluate fails' now' s))).
      alert_level a \<in> {''Warning'', ''Danger'', ''Critical''} \<and>
      (\<exists>r. latest_reading (sensor_readings s) = Some r \<and>
         alert_reading_time a = Some (reading_time r)))"
proof (rule conjI)
  show "\<forall>a\<in>set (inserted_alerts s (snd (POST_readings p fails now body s))).
      (\<exists>kvs st. body = Inr (JObject kvs) \<and> map_of (rev kvs) ''status'' = Some (JString st) \<and>
         toUpperCase p st \<in> {''WARNING'', ''DANGER'', ''CRITICAL''} \<and>
         alert_level a = toLowerCase p st) \<and>
      alert_reading_time a = None \<and> source_distance a = None \<and> source_flood_level a = None \<and>
      (\<forall>rt lvl. \<not> is_duplicate rt lvl a) \<and>
      ((\<forall>st. \<forall>c\<in>set (toLowerCase p st). c \<notin> set ''ABCDEFGHIJKLMNOPQRSTUVWXYZ'') \<longrightarrow>
         alert_level a \<notin> {''Warning'', ''Danger'', ''Critical''})"
  proof
    fix a
    assume "a \<in> set (inserted_alerts s (snd (POST_readings p fails now body s)))"
    then obtain kvs st where body: "body = Inr (JObject kvs)"
        "map_of (rev kvs) ''status'' = Some (JString st)"
        and st: "toUpperCase p st \<in> {''WARNING'', ''DANGER'', ''CRITICAL''}"
        and a: "a = ingest_alert p (next_id (map alert_id (flood_alerts s))) st now"
      by (rule ingest_inserted_alert)
    have lvl: "alert_level a = toLowerCase p st" using a by (simp add: ingest_alert_def)
    have nulls: "alert_reading_time a = None" "source_distance a = None"
        "source_flood_level a = None"
      using a by (simp_all add: ingest_alert_def)
    have differ: "alert_level a \<notin> {''Warning'', ''Danger'', ''Critical''}"
      if low: "\<forall>st. \<forall>c\<in>set (toLowerCase p st). c \<notin> set ''ABCDEFGHIJKLMNOPQRSTUVWXYZ''"
    proof
      assume "alert_level a \<in> {''Warning'', ''Danger'', ''Critical''}"
      then have "CHR ''W'' \<in> set (toLowerCase p st) \<or> CHR ''D'' \<in> set (toLowerCase p st) \<or>
          CHR ''C'' \<in> set (toLowerCase p st)"
        using lvl by auto
      then show False using low by auto
    qed
    show "(\<exists>kvs st. body = Inr (JObject kvs) \<and> map_of (rev kvs) ''status'' = Some (JString st) \<and>
         toUpperCase p st \<in> {''WARNING'', ''DANGER'', ''CRITICAL''} \<and>
         alert_level a = toLowerCase p st) \<and>
      alert_reading_time a = None \<and> source_distance a = None \<and> source_flood_level a = None \<and>
      (\<forall>rt lvl. \<not> is_duplicate rt lvl a) \<and>
      ((\<forall>st. \<forall>c\<in>set (toLowerCase p st). c \<notin> set ''ABCDEFGHIJKLMNOPQRSTUVWXYZ'') \<longrightarrow>
         alert_level a \<notin> {''Warning'', ''Danger'', ''Critical''})"
      using body st lvl nulls differ by (simp add: is_duplicate_def)
  qed
next
  show "\<forall>a\<in>set (inserted_alerts s (snd (evaluate fails' now' s))).
      alert_level a \<in> {''Warning'', ''Danger'', ''Critical''} \<and>
      (\<exists>r. latest_reading (sensor_readings s) = Some r \<and>
         alert_reading_time a = Some (reading_time r))"
  proof
    fix a
    assume "a \<in> set (inserted_alerts s (snd (evaluate fails' now' s)))"
    then obtain r lvl st where r: "latest_reading (sensor_readings s) = Some r"
        and lvl: "alertLevel_of (toFixed2 (distance r)) = Some lvl"
        and "a = (engine_alert (next_id (map alert_id (flood_alerts s))) lvl r now')\<lparr>status := st\<rparr>"
      using engine_inserted_cases [of s fails' now'] by auto
    then have "alert_level a = lvl" "alert_reading_time a = Some (reading_time r)"
      by (simp_all add: engine_alert_def)
    then show "alert_level a \<in> {''Warning'', ''Danger'', ''Critical''} \<and>
      (\<exists>r. latest_reading (sensor_readings s) = Some r \<and>
         alert_reading_time a = Some (reading_time r))"
      using alertLevel_of_range [OF lvl] r by simp
  qed
qed

lemma lower_char_not_capital: "lower_char c \<notin> set ''ABCDEFGHIJKLMNOPQRSTUVWXYZ''"
  by (simp add: lower_char_def)

lemma ascii_lower_no_capital:
  "\<forall>st. \<forall>c\<in>set (toLowerCase ascii_platform st). c \<notin> set ''ABCDEFGHIJKLMNOPQRSTUVWXYZ''"
  using lower_char_not_capital by (auto simp: ascii_platform_def)

text \<open>
  A reading at 70 cm tagged WARNING is posted to the empty store, then evaluated: the
  ingest alert has level "warning" and no reading time, the engine does not take it for
  a duplicate and records its own alert, of level "Warning".
\<close>

theorem ingest_alerts_differ_witness:
  "map alert_level (inserted_alerts empty_system
       (snd (POST_readings ascii_platform no_failure 40 (reading_body 70 30 ''WARNING'')
              empty_system))) = [''warning''] \<and>
   map alert_reading_time (inserted_alerts empty_system
       (snd (POST_readings ascii_platform no_failure 40 (reading_body 70 30 ''WARNING'')
              empty_system))) = [None] \<and>
   fst (evaluate no_failure 41
       (snd (POST_readings ascii_platform no_failure 40 (reading_body 70 30 ''WARNING'')
              empty_system))) = AlertRecorded False \<and>
   map alert_level (flood_alerts (snd (evaluate no_failure 41
       (snd (POST_readings ascii_platform no_failure 40 (reading_body 70 30 ''WARNING'')
              empty_system))))) = [''warning'', ''Warning'']"
proof -
  let ?s1 = "snd (POST_readings ascii_platform no_failure 40 (reading_body 70 30 ''WARNING'')
                empty_system)"
  have l: "map alert_level (inserted_alerts empty_system ?s1) = [''warning'']" by code_simp
  then obtain a where a: "inserted_alerts empty_system ?s1 = [a]" by auto
  have "alert_reading_time a = None \<and> alert_level a \<notin> {''Warning'', ''Danger'', ''Critical''}"
    using ingest_alerts_differ
      [of empty_system ascii_platform no_failure 40 "reading_body 70 30 ''WARNING''"] a
      ascii_lower_no_capital
    by simp
  then have t: "map alert_reading_time (inserted_alerts empty_system ?s1) = [None]"
    using a by simp
  have e: "fst (evaluate no_failure 41 ?s1) = AlertRecorded False" by code_simp
  have f: "map alert_level (flood_alerts (snd (evaluate no_failure 41 ?s1))) =
     [''warning'', ''Warning'']" by code_simp
  show ?thesis using l t e f by simp
qed

section \<open>Validation in the ingest handler\<close>

lemma POST_readings_bad_json:
  "POST_readings p fails now (Inl msg) s = (Inr (bad_json_response msg), s)"
  by (simp add: POST_readings_def)

lemma POST_readings_rejected_unchanged:
  assumes "POST_readings p fails now body s = (Inr resp, s')" "ir_http_status resp = 400"
  shows "s' = s \<and> ir_success resp = False"
proof (cases body)
  case (Inl msg)
  then show ?thesis using assms by (auto simp: POST_readings_def bad_json_response_def)
next
  case (Inr j)
  then show ?thesis
    using assms
    by (cases j)
      (auto simp: POST_readings_def Let_def invalid_data_response_def
        server_error_response_def stored_response_def
        split: option.splits json.splits if_splits)
qed

lemma POST_readings_typed:
  assumes "destructure j = Inr (Some (JNumber d), Some (JNumber fl), Some (JString st))"
  shows "fails GetConnection \<or> fails InsertReading \<Longrightarrow>
           \<exists>msg. POST_readings p fails now (Inr j) s = (Inr (server_error_response msg), s)"
    and "\<forall>q. \<not> fails q \<Longrightarrow>
           fst (POST_readings p fails now (Inr j) s) =
             Inr (stored_response (next_id (map reading_id (sensor_readings s))) d fl st now) \<and>
           sensor_readings (snd (POST_readings p fails now (Inr j) s)) =
             sensor_readings s @
               [\<lparr>reading_id = next_id (map reading_id (sensor_readings s)), distance = d,
                 flood_level = fl, status_tag = st, reading_time = now\<rparr>]"
  using assms by (auto simp: POST_readings_def Let_def)

lemma POST_readings_untyped:
  assumes "destructure j = Inr (d', fl', st')"
    and "(\<forall>d. d' \<noteq> Some (JNumber d)) \<or> (\<forall>fl. fl' \<noteq> Some (JNumber fl)) \<or>
         (\<forall>st. st' \<noteq> Some (JString st))"
  shows "POST_readings p fails now (Inr j) s = (Inr invalid_data_response, s)"
  using assms by (auto simp: POST_readings_def split: option.splits json.splits)

text \<open>
  C9, at the body \<open>null\<close>. It is valid JSON and carries none of the three fields, so the
  claim asks for a 400 response with \<open>success: false\<close>. The handler destructures it
  before any \<open>try\<close>: the \<open>TypeError\<close> escapes, and no response of the handler's own is sent.
\<close>

theorem null_body_uncaught:
  "POST_readings p fails now (Inr JNull) s = (Inl TypeError, s)"
  by (simp add: POST_readings_def)

end
